theory Spec2Isabelle
  imports Main "HOL-Library.Sublist"
begin

section \<open>Shell runner: \<open>appendCapped\<close> and \<open>runShellCommand\<close>\<close>

text \<open>
  \<open>appendCapped(current, chunk, maxChars)\<close>. JavaScript strings are sequences of code
  units, modelled as \<open>string\<close>; \<open>maxChars\<close> is a number, taken as an \<open>int\<close> so that the
  guard \<open>current.length >= maxChars\<close> is also modelled for a cap that is zero or negative.
\<close>

definition appendCapped :: "string \<Rightarrow> string \<Rightarrow> int \<Rightarrow> string" where
  "appendCapped current chunk maxChars =
     (if int (length current) \<ge> maxChars then current
      else (let remaining = maxChars - int (length current)
            in current @ take (nat remaining) chunk))"

record CommandResult =
  command :: string
  exitCode :: "int option"
  timedOut :: bool
  stdout :: string
  stderr :: string

text \<open>
  The events the spawned child delivers to the handlers that \<open>runShellCommand\<close> installs:
  data on either stream, the timeout timer, \<open>error\<close> and \<open>close\<close> (exit code \<open>null\<close> when
  the child was ended by a signal). \<open>durationMs\<close> is wall-clock time and is left out.
\<close>

datatype child_event =
    StdoutData string
  | StderrData string
  | TimerFired
  | ErrorEvent string
  | CloseEvent "int option"

text \<open>
  The local variables of the promise body, the number of \<open>child.kill()\<close> calls, and the
  state of the promise: \<open>None\<close> while pending, \<open>Inl\<close> rejected, \<open>Inr\<close> resolved.
\<close>

record shell_run =
  sr_stdout :: string
  sr_stderr :: string
  sr_timedOut :: bool
  sr_settled :: bool
  sr_kills :: nat
  sr_promise :: "(string + CommandResult) option"

definition shell_init :: shell_run where
  "shell_init = \<lparr> sr_stdout = [], sr_stderr = [], sr_timedOut = False,
                  sr_settled = False, sr_kills = 0, sr_promise = None \<rparr>"

text \<open>
  One handler invocation. The timer is cleared when the promise settles and fires at most
  once, so a \<open>TimerFired\<close> after either is not delivered.
\<close>

fun shell_step :: "string \<Rightarrow> int \<Rightarrow> shell_run \<Rightarrow> child_event \<Rightarrow> shell_run" where
  "shell_step cmd maxOutputChars s (StdoutData chunk) =
     s\<lparr> sr_stdout := appendCapped (sr_stdout s) chunk maxOutputChars \<rparr>"
| "shell_step cmd maxOutputChars s (StderrData chunk) =
     s\<lparr> sr_stderr := appendCapped (sr_stderr s) chunk maxOutputChars \<rparr>"
| "shell_step cmd maxOutputChars s TimerFired =
     (if sr_settled s \<or> sr_timedOut s then s
      else s\<lparr> sr_timedOut := True, sr_kills := Suc (sr_kills s) \<rparr>)"
| "shell_step cmd maxOutputChars s (ErrorEvent e) =
     (if sr_settled s then s
      else s\<lparr> sr_settled := True, sr_promise := Some (Inl e) \<rparr>)"
| "shell_step cmd maxOutputChars s (CloseEvent code) =
     (if sr_settled s then s
      else s\<lparr> sr_settled := True,
              sr_promise := Some (Inr \<lparr> command = cmd, exitCode = code,
                                       timedOut = sr_timedOut s,
                                       stdout = sr_stdout s, stderr = sr_stderr s \<rparr>) \<rparr>)"

fun is_terminal :: "child_event \<Rightarrow> bool" where
  "is_terminal (ErrorEvent e) = True"
| "is_terminal (CloseEvent c) = True"
| "is_terminal _ = False"

fun stdout_chunk :: "child_event \<Rightarrow> string" where
  "stdout_chunk (StdoutData c) = c"
| "stdout_chunk _ = []"

fun stderr_chunk :: "child_event \<Rightarrow> string" where
  "stderr_chunk (StderrData c) = c"
| "stderr_chunk _ = []"

definition shell_run_events :: "string \<Rightarrow> int \<Rightarrow> child_event list \<Rightarrow> shell_run" where
  "shell_run_events cmd maxOutputChars events =
     foldl (shell_step cmd maxOutputChars) shell_init events"

definition runShellCommand ::
  "string \<Rightarrow> int \<Rightarrow> child_event list \<Rightarrow> (string + CommandResult) option" where
  "runShellCommand cmd maxOutputChars events =
     sr_promise (shell_run_events cmd maxOutputChars events)"

section \<open>JavaScript strings\<close>

text \<open>
  A JavaScript string is modelled as a \<open>string\<close>: one \<open>char\<close> per code unit, for the code
  units below 256. \<open>trim\<close> removes the white space and line terminators of that range,
  \<open>toLowerCase\<close> maps the upper-case letters of that range.
\<close>

definition js_is_space :: "char \<Rightarrow> bool" where
  "js_is_space c = ((of_char c :: nat) \<in> {9, 10, 11, 12, 13, 32, 160})"

definition js_trim :: "string \<Rightarrow> string" where
  "js_trim s = rev (dropWhile js_is_space (rev (dropWhile js_is_space s)))"

definition js_lower_char :: "char \<Rightarrow> char" where
  "js_lower_char c =
     (let n = (of_char c :: nat)
      in if (65 \<le> n \<and> n \<le> 90) \<or> (192 \<le> n \<and> n \<le> 222 \<and> n \<noteq> 215)
         then char_of (n + 32) else c)"

definition js_toLowerCase :: "string \<Rightarrow> string" where
  "js_toLowerCase s = map js_lower_char s"

definition js_includes :: "string \<Rightarrow> string \<Rightarrow> bool" where
  "js_includes s needle = sublist needle s"

fun split_on :: "char \<Rightarrow> string \<Rightarrow> string list" where
  "split_on sep [] = [[]]"
| "split_on sep (c # cs) =
     (if c = sep then [] # split_on sep cs
      else (case split_on sep cs of
              [] \<Rightarrow> [[c]]
            | s # ss \<Rightarrow> (c # s) # ss))"

fun js_join :: "string \<Rightarrow> string list \<Rightarrow> string" where
  "js_join sep [] = []"
| "js_join sep [s] = s"
| "js_join sep (s # t # ss) = s @ sep @ js_join sep (t # ss)"

section \<open>Path sandbox (utils/path.ts)\<close>

text \<open>
  What the module reads from the Node process: \<open>process.platform\<close>, \<open>process.cwd()\<close>, the
  working directories that Windows keeps per drive in the environment
  (\<open>process.env['=C:']\<close>, read by \<open>path.resolve\<close> on win32 only), and the runtime's
  \<open>String.prototype.toLowerCase\<close>.
\<close>

datatype platform = Posix | Win32

record process =
  p_platform :: platform
  p_cwd :: string
  p_driveCwd :: "string \<Rightarrow> string option"
  p_toLowerCase :: "string \<Rightarrow> string"

subsection \<open>\<open>path.resolve\<close> on POSIX\<close>

text \<open>
  The arguments are taken from the right until one is absolute, \<open>process.cwd()\<close> (an
  absolute path, the parameter \<open>cwd\<close>) coming last; the segments \<open>.\<close> and the empty one are
  dropped and \<open>..\<close> removes the segment before it, staying at the root.
\<close>

fun resolve_loop :: "string list \<Rightarrow> string \<Rightarrow> string" where
  "resolve_loop [] resolvedPath = resolvedPath"
| "resolve_loop (p # ps) resolvedPath =
     (if p = [] then resolve_loop ps resolvedPath
      else if hd p = CHR ''/'' then p @ ''/'' @ resolvedPath
      else resolve_loop ps (p @ ''/'' @ resolvedPath))"

fun normalizeSegments :: "string list \<Rightarrow> string list \<Rightarrow> string list" where
  "normalizeSegments res [] = rev res"
| "normalizeSegments res (s # ss) =
     (if s = [] \<or> s = ''.'' then normalizeSegments res ss
      else if s = ''..'' then
        (case res of [] \<Rightarrow> normalizeSegments [] ss
                   | _ # up \<Rightarrow> normalizeSegments up ss)
      else normalizeSegments (s # res) ss)"

definition resolved_segments :: "string \<Rightarrow> string list \<Rightarrow> string list" where
  "resolved_segments cwd args =
     normalizeSegments [] (split_on CHR ''/'' (resolve_loop (rev args @ [cwd]) []))"

text \<open>A segment of a resolved path: not empty, free of separators, neither \<open>.\<close> nor \<open>..\<close>.\<close>

definition good_segment :: "string \<Rightarrow> bool" where
  "good_segment s = (s \<noteq> [] \<and> CHR ''/'' \<notin> set s \<and> s \<noteq> ''.'' \<and> s \<noteq> ''..'')"

definition render_path :: "string list \<Rightarrow> string" where
  "render_path segs = (if segs = [] then ''/'' else concat (map ((#) CHR ''/'') segs))"

definition posix_resolve :: "string \<Rightarrow> string list \<Rightarrow> string" where
  "posix_resolve cwd args = render_path (resolved_segments cwd args)"

subsection \<open>\<open>path.resolve\<close> on win32\<close>

definition backslash :: char where
  "backslash = CHR 0x5C"

definition isPathSeparator :: "char \<Rightarrow> bool" where
  "isPathSeparator c = (c = CHR ''/'' \<or> c = backslash)"

definition isWindowsDeviceRoot :: "char \<Rightarrow> bool" where
  "isWindowsDeviceRoot c =
     (let n = (of_char c :: nat) in (65 \<le> n \<and> n \<le> 90) \<or> (97 \<le> n \<and> n \<le> 122))"

text \<open>
  The root of one argument: its device (a drive \<open>C:\<close> or a UNC root \<open>\\server\share\<close>, empty
  when there is none), the index \<open>rootEnd\<close> where the rest of the path begins, and whether
  the argument is absolute.
\<close>

definition win32_root :: "string \<Rightarrow> string \<times> nat \<times> bool" where
  "win32_root path =
     (case path of
        [] \<Rightarrow> ([], 0, False)
      | [c] \<Rightarrow> (if isPathSeparator c then ([], 1, True) else ([], 0, False))
      | c # d # rest \<Rightarrow>
          (if isPathSeparator c then
             (if isPathSeparator d then
                (let firstPart = takeWhile (\<lambda>x. \<not> isPathSeparator x) rest;
                     afterFirst = dropWhile (\<lambda>x. \<not> isPathSeparator x) rest;
                     atShare = dropWhile isPathSeparator afterFirst;
                     share = takeWhile (\<lambda>x. \<not> isPathSeparator x) atShare
                 in if firstPart \<noteq> [] \<and> afterFirst \<noteq> [] \<and> atShare \<noteq> []
                    then ([backslash, backslash] @ firstPart @ [backslash] @ share,
                          length path - length atShare + length share, True)
                    else ([], 0, True))
              else ([], 1, True))
           else if isWindowsDeviceRoot c \<and> d = CHR '':'' then
             (if rest \<noteq> [] \<and> isPathSeparator (hd rest) then ([c, d], 3, True)
              else ([c, d], 2, False))
           else ([], 0, False)))"

record win32_state =
  resolvedDevice :: string
  resolvedTail :: string
  resolvedAbsolute :: bool

text \<open>
  The body of the loop for one non-empty argument; the second component says that the
  loop ends (\<open>break\<close>). An argument on another device than the one resolved so far is
  passed over.
\<close>

definition win32_step :: "(string \<Rightarrow> string) \<Rightarrow> string \<Rightarrow> win32_state \<Rightarrow> win32_state \<times> bool" where
  "win32_step toLowerCase path st =
     (case win32_root path of (device, rootEnd, isAbsolute) \<Rightarrow>
        if device \<noteq> [] \<and> resolvedDevice st \<noteq> []
           \<and> toLowerCase device \<noteq> toLowerCase (resolvedDevice st)
        then (st, False)
        else (let st1 = (if device \<noteq> [] \<and> resolvedDevice st = []
                         then st\<lparr> resolvedDevice := device \<rparr> else st)
              in if resolvedAbsolute st1 then (st1, resolvedDevice st1 \<noteq> [])
                 else (st1\<lparr> resolvedTail := drop rootEnd path @ [backslash] @ resolvedTail st1,
                           resolvedAbsolute := isAbsolute \<rparr>,
                       isAbsolute \<and> resolvedDevice st1 \<noteq> [])))"

text \<open>
  The path taken after the last argument: \<open>process.cwd()\<close> when no device is resolved yet,
  else the working directory of that drive (or \<open>process.cwd()\<close>), replaced by the root of
  the drive when it is on another drive.
\<close>

definition win32_cwd :: "process \<Rightarrow> string \<Rightarrow> string" where
  "win32_cwd pr device =
     (if device = [] then p_cwd pr
      else (let path = (case p_driveCwd pr device of
                          None \<Rightarrow> p_cwd pr
                        | Some dir \<Rightarrow> (if dir = [] then p_cwd pr else dir))
            in if p_toLowerCase pr (take 2 path) \<noteq> p_toLowerCase pr device
                  \<and> 2 < length path \<and> path ! 2 = backslash
               then device @ [backslash]
               else path))"

text \<open>The loop over the arguments from the right, then over the working directory.\<close>

fun win32_loop :: "process \<Rightarrow> string list \<Rightarrow> win32_state \<Rightarrow> win32_state" where
  "win32_loop pr [] st =
     fst (win32_step (p_toLowerCase pr) (win32_cwd pr (resolvedDevice st)) st)"
| "win32_loop pr (path # paths) st =
     (if path = [] then win32_loop pr paths st
      else (case win32_step (p_toLowerCase pr) path st of
              (st', stop) \<Rightarrow> if stop then st' else win32_loop pr paths st'))"

text \<open>
  \<open>normalizeString\<close> with \<open>allowAboveRoot\<close>, for a path that is not absolute: a \<open>..\<close> that
  has no segment to remove is kept.
\<close>

fun normalizeAboveRoot :: "string list \<Rightarrow> string list \<Rightarrow> string list" where
  "normalizeAboveRoot res [] = rev res"
| "normalizeAboveRoot res (s # ss) =
     (if s = [] \<or> s = ''.'' then normalizeAboveRoot res ss
      else if s = ''..'' then
        (case res of
           [] \<Rightarrow> normalizeAboveRoot [''..''] ss
         | r # up \<Rightarrow> (if r = ''..'' then normalizeAboveRoot (''..'' # res) ss
                      else normalizeAboveRoot up ss))
      else normalizeAboveRoot (s # res) ss)"

definition to_backslashes :: "string \<Rightarrow> string" where
  "to_backslashes s = map (\<lambda>c. if c = CHR ''/'' then backslash else c) s"

definition win32_segments :: "win32_state \<Rightarrow> string list" where
  "win32_segments st =
     (let parts = split_on backslash (to_backslashes (resolvedTail st))
      in if resolvedAbsolute st then normalizeSegments [] parts
         else normalizeAboveRoot [] parts)"

definition win32_render :: "win32_state \<Rightarrow> string" where
  "win32_render st =
     (let tail = js_join [backslash] (win32_segments st)
      in if resolvedAbsolute st then resolvedDevice st @ [backslash] @ tail
         else if resolvedDevice st @ tail = [] then ''.''
         else resolvedDevice st @ tail)"

definition win32_resolve :: "process \<Rightarrow> string list \<Rightarrow> string" where
  "win32_resolve pr args =
     win32_render (win32_loop pr (rev args)
       \<lparr> resolvedDevice = [], resolvedTail = [], resolvedAbsolute = False \<rparr>)"

subsection \<open>\<open>resolveWorkspacePath\<close>\<close>

definition path_resolve :: "process \<Rightarrow> string list \<Rightarrow> string" where
  "path_resolve pr args =
     (case p_platform pr of
        Posix \<Rightarrow> posix_resolve (p_cwd pr) args
      | Win32 \<Rightarrow> win32_resolve pr args)"

definition path_sep :: "process \<Rightarrow> char" where
  "path_sep pr = (case p_platform pr of Posix \<Rightarrow> CHR ''/'' | Win32 \<Rightarrow> backslash)"

definition normalizeForComparison :: "process \<Rightarrow> string \<Rightarrow> string" where
  "normalizeForComparison pr v =
     (let normalized = path_resolve pr [v]
      in if p_platform pr = Win32 then p_toLowerCase pr normalized else normalized)"

datatype error =
    PathEscape string
  | TypeError string
  | SyntaxError string
  | IOError string

definition resolveWorkspacePath :: "process \<Rightarrow> string \<Rightarrow> string \<Rightarrow> error + string" where
  "resolveWorkspacePath pr workspaceRoot userPath =
     (let rootResolved = path_resolve pr [workspaceRoot];
          candidate = path_resolve pr [rootResolved, userPath];
          rootCmp = normalizeForComparison pr rootResolved;
          candidateCmp = normalizeForComparison pr candidate;
          rootPrefix = (if suffix [path_sep pr] rootCmp then rootCmp else rootCmp @ [path_sep pr])
      in if candidateCmp \<noteq> rootCmp \<and> \<not> prefix rootPrefix candidateCmp
         then Inl (PathEscape userPath)
         else Inr candidate)"

text \<open>
  The segments of a path, a separator at its end apart; and the segments under which the
  path that \<open>v\<close> resolves to is compared: as they are on POSIX, in lower case on win32.
\<close>

definition path_segments :: "char \<Rightarrow> string \<Rightarrow> string list" where
  "path_segments sep p =
     (let segs = split_on sep p in if last segs = [] then butlast segs else segs)"

definition compared_segments :: "process \<Rightarrow> string \<Rightarrow> string list" where
  "compared_segments pr v =
     path_segments (path_sep pr)
       (case p_platform pr of
          Posix \<Rightarrow> path_resolve pr [v]
        | Win32 \<Rightarrow> p_toLowerCase pr (path_resolve pr [v]))"

text \<open>
  \<open>within_root pr root p\<close>: the path that \<open>p\<close> resolves to is the resolved root or lies below
  it, read segment by segment. On win32 two names are taken for the same when
  \<open>toLowerCase\<close> gives the same text for them; whether the file system holds them for one
  directory is not part of this notion.
\<close>

definition within_root :: "process \<Rightarrow> string \<Rightarrow> string \<Rightarrow> bool" where
  "within_root pr root p =
     prefix (compared_segments pr (path_resolve pr [root])) (compared_segments pr p)"

text \<open>
  The other modules are followed on POSIX, with the working directory \<open>cwd\<close>.
\<close>

definition posix :: "string \<Rightarrow> process" where
  "posix cwd =
     \<lparr> p_platform = Posix, p_cwd = cwd, p_driveCwd = (\<lambda>device. None),
       p_toLowerCase = js_toLowerCase \<rparr>"

section \<open>Secret detection (security/secrets.ts)\<close>

text \<open>
  The six regular expressions of \<open>SECRET_RULES\<close> are sequences of four kinds of atom: the
  assertion \<open>\b\<close>, a literal, an alternative of literals and a greedy bounded repetition
  of a character class. \<open>match_atoms\<close> is the backtracking matcher for such a sequence at
  one position (\<open>prev\<close> is the code unit before it): it returns the length of the match.
\<close>

datatype regex_atom =
    WordBoundary
  | Literal string
  | OneOf "string list"
  | Repeat "char \<Rightarrow> bool" nat "nat option"

definition in_range :: "char \<Rightarrow> char \<Rightarrow> char \<Rightarrow> bool" where
  "in_range lo hi c = ((of_char lo :: nat) \<le> of_char c \<and> (of_char c :: nat) \<le> of_char hi)"

definition is_alnum :: "char \<Rightarrow> bool" where
  "is_alnum c = (in_range CHR ''A'' CHR ''Z'' c \<or> in_range CHR ''a'' CHR ''z'' c
                 \<or> in_range CHR ''0'' CHR ''9'' c)"

definition is_upper_digit :: "char \<Rightarrow> bool" where
  "is_upper_digit c = (in_range CHR ''0'' CHR ''9'' c \<or> in_range CHR ''A'' CHR ''Z'' c)"

definition is_alnum_dash_underscore :: "char \<Rightarrow> bool" where
  "is_alnum_dash_underscore c = (is_alnum c \<or> c = CHR ''-'' \<or> c = CHR ''_'')"

definition is_word_char :: "char \<Rightarrow> bool" where
  "is_word_char c = (is_alnum c \<or> c = CHR ''_'')"

definition word_at :: "char option \<Rightarrow> bool" where
  "word_at c = (case c of None \<Rightarrow> False | Some x \<Rightarrow> is_word_char x)"

definition next_char :: "string \<Rightarrow> char option" where
  "next_char s = (case s of [] \<Rightarrow> None | c # _ \<Rightarrow> Some c)"

definition last_char :: "char option \<Rightarrow> string \<Rightarrow> char option" where
  "last_char prev consumed = (if consumed = [] then prev else Some (last consumed))"

fun first_some :: "'a option list \<Rightarrow> 'a option" where
  "first_some [] = None"
| "first_some (None # xs) = first_some xs"
| "first_some (Some x # xs) = Some x"

fun match_atoms :: "regex_atom list \<Rightarrow> char option \<Rightarrow> string \<Rightarrow> nat option" where
  "match_atoms [] prev s = Some 0"
| "match_atoms (WordBoundary # as) prev s =
     (if word_at prev \<noteq> word_at (next_char s) then match_atoms as prev s else None)"
| "match_atoms (Literal l # as) prev s =
     (if prefix l s
      then map_option ((+) (length l)) (match_atoms as (last_char prev l) (drop (length l) s))
      else None)"
| "match_atoms (OneOf ls # as) prev s =
     first_some (map (\<lambda>l. if prefix l s
                            then map_option ((+) (length l))
                                   (match_atoms as (last_char prev l) (drop (length l) s))
                            else None) ls)"
| "match_atoms (Repeat cls lo hi # as) prev s =
     (let run = length (takeWhile cls s);
          most = (case hi of None \<Rightarrow> run | Some h \<Rightarrow> min run h)
      in first_some (map (\<lambda>k. map_option ((+) k)
                                  (match_atoms as (last_char prev (take k s)) (drop k s)))
                         (rev [lo..<Suc most])))"

text \<open>
  \<open>content.matchAll(regex)\<close> for a global regular expression: the matches from left to
  right, each search starting where the previous match ended. \<open>skip\<close> counts the code
  units still covered by the previous match.
\<close>

fun matchAll_from :: "regex_atom list \<Rightarrow> char option \<Rightarrow> nat \<Rightarrow> string \<Rightarrow> string list" where
  "matchAll_from r prev skip [] = []"
| "matchAll_from r prev (Suc k) (c # cs) = matchAll_from r (Some c) k cs"
| "matchAll_from r prev 0 (c # cs) =
     (case match_atoms r prev (c # cs) of
        None \<Rightarrow> matchAll_from r (Some c) 0 cs
      | Some 0 \<Rightarrow> [] # matchAll_from r (Some c) 0 cs
      | Some (Suc n) \<Rightarrow> take (Suc n) (c # cs) # matchAll_from r (Some c) n cs)"

definition matchAll :: "regex_atom list \<Rightarrow> string \<Rightarrow> string list" where
  "matchAll r content = matchAll_from r None 0 content"

record SecretFinding =
  finding_type :: string
  snippet :: string

record SecretRule =
  rule_type :: string
  regex :: "regex_atom list"

definition SECRET_RULES :: "SecretRule list" where
  "SECRET_RULES =
    [ \<lparr> rule_type = ''Groq API key'',
        regex = [WordBoundary, Literal ''gsk_'', Repeat is_alnum 20 None, WordBoundary] \<rparr>,
      \<lparr> rule_type = ''OpenAI API key'',
        regex = [WordBoundary, Literal ''sk-'', Repeat is_alnum 20 None, WordBoundary] \<rparr>,
      \<lparr> rule_type = ''GitHub token'',
        regex = [WordBoundary, Literal ''ghp_'', Repeat is_alnum 20 None, WordBoundary] \<rparr>,
      \<lparr> rule_type = ''AWS access key'',
        regex = [WordBoundary, Literal ''AKIA'', Repeat is_upper_digit 16 (Some 16), WordBoundary] \<rparr>,
      \<lparr> rule_type = ''Google API key'',
        regex = [WordBoundary, Literal ''AIza'', Repeat is_alnum_dash_underscore 20 None,
                 WordBoundary] \<rparr>,
      \<lparr> rule_type = ''Private key block'',
        regex = [Literal ''-----BEGIN '', OneOf [''RSA'', ''OPENSSH'', ''EC'', ''DSA''],
                 Literal '' PRIVATE KEY-----''] \<rparr> ]"

definition mask_snippet :: "string \<Rightarrow> string" where
  "mask_snippet raw =
     (if length raw > 12 then take 6 raw @ ''...'' @ drop (length raw - 4) raw else raw)"

text \<open>
  The inner loop over the matches of one rule; the flag says that the function returned
  from inside it (\<open>findings.length >= 20\<close>).
\<close>

fun add_matches :: "string \<Rightarrow> string list \<Rightarrow> SecretFinding list \<Rightarrow> SecretFinding list \<times> bool" where
  "add_matches ty [] findings = (findings, False)"
| "add_matches ty (raw # rest) findings =
     (if raw = [] then add_matches ty rest findings
      else (let findings' = findings @ [\<lparr> finding_type = ty, snippet = mask_snippet raw \<rparr>]
            in if length findings' \<ge> 20 then (findings', True)
               else add_matches ty rest findings'))"

fun scan_rules :: "SecretRule list \<Rightarrow> string \<Rightarrow> SecretFinding list \<Rightarrow> SecretFinding list" where
  "scan_rules [] content findings = findings"
| "scan_rules (rule # rules) content findings =
     (case add_matches (rule_type rule) (matchAll (regex rule) content) findings of
        (findings', True) \<Rightarrow> findings'
      | (findings', False) \<Rightarrow> scan_rules rules content findings')"

text \<open>The finding pushed for one match, and the findings of one rule in match order.\<close>

definition finding_of :: "SecretRule \<Rightarrow> string \<Rightarrow> SecretFinding" where
  "finding_of rule raw = \<lparr> finding_type = rule_type rule, snippet = mask_snippet raw \<rparr>"

definition rule_findings :: "string \<Rightarrow> SecretRule \<Rightarrow> SecretFinding list" where
  "rule_findings content rule =
     map (finding_of rule) (filter (\<lambda>raw. raw \<noteq> []) (matchAll (regex rule) content))"

definition detectSecrets :: "string \<Rightarrow> SecretFinding list" where
  "detectSecrets content = scan_rules SECRET_RULES content []"


section \<open>JSON values\<close>

text \<open>
  The values \<open>JSON.parse\<close> returns. A number is represented by the three observations the
  program makes of it: \<open>Number.isFinite\<close>, whether it is zero (its truthiness), and its
  \<open>String(...)\<close> text. An object is the list of its own properties in enumeration order.
  \<open>JSON.parse\<close> itself belongs to the runtime and is a parameter of the functions that call
  it: \<open>None\<close> stands for the \<open>SyntaxError\<close> it throws.
\<close>

datatype jsnum = JSNum (num_finite: bool) (num_zero: bool) (num_text: string)

datatype json =
    JNull
  | JBool bool
  | JNum jsnum
  | JStr string
  | JArr "json list"
  | JObj "(string \<times> json) list"

text \<open>
  Property access \<open>v.key\<close> on a value that is not \<open>null\<close>; \<open>None\<close> is \<open>undefined\<close>. None
  of the keys the program reads is a property of \<open>Object.prototype\<close>, \<open>Array.prototype\<close> or
  of a primitive's wrapper, so only own properties of objects are found.
\<close>

fun js_get :: "json \<Rightarrow> string \<Rightarrow> json option" where
  "js_get (JObj kvs) key = map_of kvs key"
| "js_get _ key = None"

fun js_truthy :: "json \<Rightarrow> bool" where
  "js_truthy JNull = False"
| "js_truthy (JBool b) = b"
| "js_truthy (JNum n) = (\<not> num_zero n)"
| "js_truthy (JStr s) = (s \<noteq> [])"
| "js_truthy (JArr _) = True"
| "js_truthy (JObj _) = True"

fun is_object :: "json \<Rightarrow> bool" where
  "is_object (JArr _) = True"
| "is_object (JObj _) = True"
| "is_object _ = False"

fun map_err :: "('a \<Rightarrow> 'e + 'b) \<Rightarrow> 'a list \<Rightarrow> 'e + 'b list" where
  "map_err f [] = Inr []"
| "map_err f (x # xs) =
     (case f x of
        Inl e \<Rightarrow> Inl e
      | Inr y \<Rightarrow> (case map_err f xs of Inl e \<Rightarrow> Inl e | Inr ys \<Rightarrow> Inr (y # ys)))"

lemma map_err_cong [fundef_cong]:
  "xs = ys \<Longrightarrow> (\<And>x. x \<in> set ys \<Longrightarrow> f x = g x) \<Longrightarrow> map_err f xs = map_err g ys"
  by (induction ys arbitrary: xs) (auto split: sum.splits)

text \<open>
  \<open>String(v)\<close>. An object is converted through its \<open>toString\<close> property: a parsed object
  with an own property of that name holds a value that is not callable there, and
  \<open>Object.prototype.valueOf\<close> (or an own \<open>valueOf\<close>, not callable either) gives no
  primitive, so the conversion throws a \<open>TypeError\<close>. An array is joined with commas,
  \<open>null\<close> elements giving the empty string.
\<close>

fun js_String :: "json \<Rightarrow> error + string" where
  "js_String JNull = Inr ''null''"
| "js_String (JBool b) = Inr (if b then ''true'' else ''false'')"
| "js_String (JNum n) = Inr (num_text n)"
| "js_String (JStr s) = Inr s"
| "js_String (JArr xs) =
     (case map_err (\<lambda>x. if x = JNull then Inr [] else js_String x) xs of
        Inl e \<Rightarrow> Inl e
      | Inr parts \<Rightarrow> Inr (js_join '','' parts))"
| "js_String (JObj kvs) =
     (if ''toString'' \<in> fst ` set kvs
      then Inl (TypeError ''Cannot convert object to primitive value'')
      else Inr ''[object Object]'')"

function string_of_nat :: "nat \<Rightarrow> string" where
  "string_of_nat n =
     (if n < 10 then [char_of (48 + n)]
      else string_of_nat (n div 10) @ [char_of (48 + n mod 10)])"
  by pat_completeness auto
termination
  by (relation "measure id") auto

text \<open>\<open>Object.entries(v)\<close> of an object or an array.\<close>

fun js_entries :: "json \<Rightarrow> (string \<times> json) list" where
  "js_entries (JObj kvs) = kvs"
| "js_entries (JArr xs) = zip (map string_of_nat [0..<length xs]) xs"
| "js_entries _ = []"

section \<open>Agent actions and the model response (types.ts)\<close>

datatype AgentStatus = Continue | Done | NeedUser

datatype AgentAction =
    ListFiles "string option" "bool option" "jsnum option" "jsnum option"
  | ReadFile string "jsnum option" "jsnum option"
  | Grep string "string option" "jsnum option"
  | RunCommand string
  | WriteFile string string
  | ScanProject "bool option" "jsnum option"
  | SymbolLookup string "string option" "jsnum option"
  | FindReferences string "string option" "jsnum option"
  | DependencyMap
  | MemorySet string string
  | MemoryGet string

record MemoryUpdates =
  mu_projectRules :: "string list option"
  mu_architectureNotes :: "string list option"
  mu_commonCommands :: "string list option"
  mu_kv :: "(string \<times> string) list option"

record AgentModelResponse =
  status :: AgentStatus
  assistant_message :: string
  plan :: "string list"
  actions :: "AgentAction list"
  verify :: "string list"
  question :: "string option"
  memory_updates :: "MemoryUpdates option"

section \<open>Response parser (agent/responseParser.ts)\<close>

text \<open>
  The regular expression of \<open>extractJson\<close> matches the first three backticks that are
  followed, anywhere later, by three more; \<open>json\<close> in any case and white space after the
  opening fence are skipped, and the group is the text up to the closing fence.
\<close>

fun find_fence :: "string \<Rightarrow> (string \<times> string) option" where
  "find_fence [] = None"
| "find_fence (c # cs) =
     (if prefix ''```'' (c # cs) then Some ([], drop 3 (c # cs))
      else map_option (\<lambda>(before, rest). (c # before, rest)) (find_fence cs))"

fun fenced_match :: "string \<Rightarrow> string option" where
  "fenced_match [] = None"
| "fenced_match (c # cs) =
     (if prefix ''```'' (c # cs) then
        (case find_fence (drop 3 (c # cs)) of
           None \<Rightarrow> fenced_match cs
         | Some (inner, _) \<Rightarrow>
             (let body = (if js_toLowerCase (take 4 inner) = ''json'' then drop 4 inner else inner)
              in Some (dropWhile js_is_space body)))
      else fenced_match cs)"

fun index_of :: "char \<Rightarrow> string \<Rightarrow> nat option" where
  "index_of x [] = None"
| "index_of x (c # cs) = (if c = x then Some 0 else map_option Suc (index_of x cs))"

fun last_index_of :: "char \<Rightarrow> string \<Rightarrow> nat option" where
  "last_index_of x [] = None"
| "last_index_of x (c # cs) =
     (case last_index_of x cs of
        Some i \<Rightarrow> Some (Suc i)
      | None \<Rightarrow> (if c = x then Some 0 else None))"

definition extractJson :: "string \<Rightarrow> string" where
  "extractJson input =
     (let trimmed = js_trim input
      in if prefix ''{'' trimmed \<and> suffix ''}'' trimmed then trimmed
         else (case (case fenced_match trimmed of
                       None \<Rightarrow> None
                     | Some g \<Rightarrow> if g = [] then None else Some g) of
                 Some g \<Rightarrow> js_trim g
               | None \<Rightarrow>
                   (case (index_of CHR ''{'' trimmed, last_index_of CHR ''}'' trimmed) of
                      (Some firstBrace, Some lastBrace) \<Rightarrow>
                        (if lastBrace > firstBrace
                         then take (Suc lastBrace - firstBrace) (drop firstBrace trimmed)
                         else trimmed)
                    | _ \<Rightarrow> trimmed)))"

definition normalizeStatus :: "json option \<Rightarrow> AgentStatus" where
  "normalizeStatus v =
     (if v = Some (JStr ''done'') then Done
      else if v = Some (JStr ''need_user'') then NeedUser
      else Continue)"

definition trimmed_nonempty :: "string list \<Rightarrow> string list" where
  "trimmed_nonempty items = filter (\<lambda>item. length item > 0) (map js_trim items)"

definition normalizePlan :: "json option \<Rightarrow> error + string list" where
  "normalizePlan v =
     (case v of
        Some (JArr items) \<Rightarrow>
          (case map_err js_String items of
             Inl e \<Rightarrow> Inl e
           | Inr strs \<Rightarrow> Inr (take 12 (trimmed_nonempty strs)))
      | _ \<Rightarrow> Inr [])"

fun verify_item :: "json \<Rightarrow> string list" where
  "verify_item (JStr s) = (if length (js_trim s) > 0 then [js_trim s] else [])"
| "verify_item (JObj kvs) =
     (if ''command'' \<in> fst ` set kvs then
        (case map_of kvs ''command'' of
           Some (JStr c) \<Rightarrow> (if length (js_trim c) > 0 then [js_trim c] else [])
         | _ \<Rightarrow> [])
      else [])"
| "verify_item _ = []"

definition normalizeVerify :: "json option \<Rightarrow> string list" where
  "normalizeVerify v =
     (case v of
        Some (JArr items) \<Rightarrow> take 8 (concat (map verify_item items))
      | _ \<Rightarrow> [])"


definition opt_string :: "json option \<Rightarrow> string option" where
  "opt_string v = (case v of Some (JStr s) \<Rightarrow> Some s | _ \<Rightarrow> None)"

definition opt_boolean :: "json option \<Rightarrow> bool option" where
  "opt_boolean v = (case v of Some (JBool b) \<Rightarrow> Some b | _ \<Rightarrow> None)"

definition opt_finite :: "json option \<Rightarrow> jsnum option" where
  "opt_finite v =
     (case v of Some (JNum n) \<Rightarrow> (if num_finite n then Some n else None) | _ \<Rightarrow> None)"

text \<open>A required string field: \<open>typeof x !== "string" || x.trim().length === 0\<close> drops the action.\<close>

definition required_string :: "json option \<Rightarrow> string option" where
  "required_string v =
     (case v of
        Some (JStr s) \<Rightarrow> (if length (js_trim s) = 0 then None else Some s)
      | _ \<Rightarrow> None)"

definition tool_name :: "json \<Rightarrow> error + string" where
  "tool_name item =
     (case js_get item ''tool'' of
        None \<Rightarrow> Inr []
      | Some JNull \<Rightarrow> Inr []
      | Some t \<Rightarrow> (case js_String t of Inl e \<Rightarrow> Inl e | Inr str \<Rightarrow> Inr (js_trim str)))"

text \<open>One pass of the loop body of \<open>normalizeActions\<close>: the actions it pushes for one item.\<close>

definition action_of_item :: "json \<Rightarrow> error + AgentAction list" where
  "action_of_item item =
     (if \<not> js_truthy item \<or> \<not> is_object item then Inr []
      else case tool_name item of
        Inl e \<Rightarrow> Inl e
      | Inr toolName \<Rightarrow> Inr
         (if toolName = ''list_files'' then
            [ListFiles (opt_string (js_get item ''path'')) (opt_boolean (js_get item ''recursive''))
                       (opt_finite (js_get item ''depth'')) (opt_finite (js_get item ''maxEntries''))]
          else if toolName = ''read_file'' then
            (case required_string (js_get item ''path'') of
               None \<Rightarrow> []
             | Some path \<Rightarrow> [ReadFile path (opt_finite (js_get item ''startLine''))
                                        (opt_finite (js_get item ''endLine''))])
          else if toolName = ''grep'' then
            (case required_string (js_get item ''pattern'') of
               None \<Rightarrow> []
             | Some pattern \<Rightarrow> [Grep pattern (opt_string (js_get item ''glob''))
                                        (opt_finite (js_get item ''maxMatches''))])
          else if toolName = ''run_command'' then
            (case required_string (js_get item ''command'') of
               None \<Rightarrow> []
             | Some cmd \<Rightarrow> [RunCommand cmd])
          else if toolName = ''write_file'' then
            (case required_string (js_get item ''path'') of
               None \<Rightarrow> []
             | Some filePath \<Rightarrow>
                 (case js_get item ''content'' of
                    Some (JStr content) \<Rightarrow> [WriteFile filePath content]
                  | _ \<Rightarrow> []))
          else if toolName = ''scan_project'' then
            [ScanProject (opt_boolean (js_get item ''refresh'')) (opt_finite (js_get item ''maxFiles''))]
          else if toolName = ''symbol_lookup'' then
            (case required_string (js_get item ''query'') of
               None \<Rightarrow> []
             | Some query \<Rightarrow> [SymbolLookup query (opt_string (js_get item ''language''))
                                           (opt_finite (js_get item ''limit''))])
          else if toolName = ''find_references'' then
            (case required_string (js_get item ''symbol'') of
               None \<Rightarrow> []
             | Some symbol \<Rightarrow> [FindReferences symbol (opt_string (js_get item ''language''))
                                              (opt_finite (js_get item ''limit''))])
          else if toolName = ''dependency_map'' then [DependencyMap]
          else if toolName = ''memory_set'' then
            (case required_string (js_get item ''key'') of
               None \<Rightarrow> []
             | Some key \<Rightarrow>
                 (case js_get item ''value'' of
                    Some (JStr val) \<Rightarrow> [MemorySet key val]
                  | _ \<Rightarrow> []))
          else if toolName = ''memory_get'' then
            (case required_string (js_get item ''key'') of
               None \<Rightarrow> []
             | Some key \<Rightarrow> [MemoryGet key])
          else []))"

definition normalizeActions :: "json option \<Rightarrow> error + AgentAction list" where
  "normalizeActions v =
     (case v of
        Some (JArr items) \<Rightarrow>
          (case map_err action_of_item items of
             Inl e \<Rightarrow> Inl e
           | Inr pushed \<Rightarrow> Inr (take 6 (concat pushed)))
      | _ \<Rightarrow> Inr [])"

definition memory_list :: "json option \<Rightarrow> error + string list option" where
  "memory_list v =
     (case v of
        Some (JArr entries) \<Rightarrow>
          (case map_err js_String entries of
             Inl e \<Rightarrow> Inl e
           | Inr strs \<Rightarrow> Inr (Some (take 30 (trimmed_nonempty strs))))
      | _ \<Rightarrow> Inr None)"

definition memory_kv :: "json option \<Rightarrow> (string \<times> string) list option" where
  "memory_kv v =
     (case v of
        None \<Rightarrow> None
      | Some kv \<Rightarrow>
          (if js_truthy kv \<and> is_object kv then
             Some (concat (map (\<lambda>(key, val). case val of JStr str \<Rightarrow> [(key, str)] | _ \<Rightarrow> [])
                    (take 50 (filter (\<lambda>(key, val). length (js_trim key) > 0
                                                  \<and> (case val of JStr _ \<Rightarrow> True | _ \<Rightarrow> False))
                                     (js_entries kv)))))
           else None))"

definition list_length_opt :: "'a list option \<Rightarrow> nat" where
  "list_length_opt v = (case v of None \<Rightarrow> 0 | Some xs \<Rightarrow> length xs)"

definition normalizeMemoryUpdates :: "json option \<Rightarrow> error + MemoryUpdates option" where
  "normalizeMemoryUpdates v =
     (case v of
        None \<Rightarrow> Inr None
      | Some obj \<Rightarrow>
          (if \<not> js_truthy obj \<or> \<not> is_object obj then Inr None
           else case memory_list (js_get obj ''projectRules'') of
             Inl e \<Rightarrow> Inl e
           | Inr rules \<Rightarrow>
          (case memory_list (js_get obj ''architectureNotes'') of
             Inl e \<Rightarrow> Inl e
           | Inr notes \<Rightarrow>
          (case memory_list (js_get obj ''commonCommands'') of
             Inl e \<Rightarrow> Inl e
           | Inr commands \<Rightarrow>
          (let kv = memory_kv (js_get obj ''kv'');
               hasAny = (list_length_opt rules > 0 \<or> list_length_opt notes > 0
                         \<or> list_length_opt commands > 0 \<or> list_length_opt kv > 0)
           in Inr (if hasAny
                   then Some \<lparr> mu_projectRules = rules, mu_architectureNotes = notes,
                               mu_commonCommands = commands, mu_kv = kv \<rparr>
                   else None))))))"

definition invalid_json_response :: AgentModelResponse where
  "invalid_json_response =
     \<lparr> status = NeedUser,
       assistant_message = ''I returned an invalid JSON response and need a retry.'',
       plan = [], actions = [], verify = [],
       question = Some ''Please ask me to retry. I will respond with strict JSON.'',
       memory_updates = None \<rparr>"

definition invalid_shape_response :: AgentModelResponse where
  "invalid_shape_response =
     \<lparr> status = NeedUser,
       assistant_message = ''I returned an invalid response shape and need a retry.'',
       plan = [], actions = [], verify = [],
       question = Some ''Please ask me to retry with strict JSON only.'',
       memory_updates = None \<rparr>"

text \<open>
  \<open>parseAgentModelResponse\<close>: \<open>Inl\<close> is an exception that leaves the function. The
  properties of the returned object are evaluated in the order they are written.
\<close>

definition parseAgentModelResponse ::
  "(string \<Rightarrow> json option) \<Rightarrow> string \<Rightarrow> error + AgentModelResponse" where
  "parseAgentModelResponse JSON_parse rawText =
     (case JSON_parse (extractJson rawText) of
        None \<Rightarrow> Inr invalid_json_response
      | Some parsed \<Rightarrow>
          (if \<not> js_truthy parsed \<or> \<not> is_object parsed then Inr invalid_shape_response
           else case normalizePlan (js_get parsed ''plan'') of
             Inl e \<Rightarrow> Inl e
           | Inr plan' \<Rightarrow>
          (case normalizeActions (js_get parsed ''actions'') of
             Inl e \<Rightarrow> Inl e
           | Inr actions' \<Rightarrow>
          (case normalizeMemoryUpdates (js_get parsed ''memory_updates'') of
             Inl e \<Rightarrow> Inl e
           | Inr updates \<Rightarrow>
             Inr \<lparr> status = normalizeStatus (js_get parsed ''status''),
                   assistant_message =
                     (case js_get parsed ''assistant_message'' of Some (JStr m) \<Rightarrow> m | _ \<Rightarrow> []),
                   plan = plan',
                   actions = actions',
                   verify = normalizeVerify (js_get parsed ''verify''),
                   question = opt_string (js_get parsed ''question''),
                   memory_updates = updates \<rparr>))))"


section \<open>Change tracker (reliability/changeTracker.ts) and the files it restores\<close>

text \<open>
  The workspace files are a map from absolute path to content. Directories, permissions
  and other I/O failures are not modelled: \<open>fs.mkdir\<close>, \<open>fs.writeFile\<close> and \<open>fs.unlink\<close>
  succeed, and a read fails only because the file is absent. What remains of
  fileTools.ts is the sandbox check each function starts with.
\<close>

type_synonym files = "string \<rightharpoonup> string"

definition writeFile :: "string \<Rightarrow> string \<Rightarrow> string \<Rightarrow> string \<Rightarrow> files \<Rightarrow> error + files" where
  "writeFile cwd workspaceRoot filePath content fs =
     (case resolveWorkspacePath (posix cwd) workspaceRoot filePath of
        Inl e \<Rightarrow> Inl e
      | Inr absolutePath \<Rightarrow> Inr (fs(absolutePath \<mapsto> content)))"

definition readFileIfExists :: "string \<Rightarrow> string \<Rightarrow> string \<Rightarrow> files \<Rightarrow> error + string" where
  "readFileIfExists cwd workspaceRoot filePath fs =
     (case resolveWorkspacePath (posix cwd) workspaceRoot filePath of
        Inl e \<Rightarrow> Inl e
      | Inr absolutePath \<Rightarrow> Inr (case fs absolutePath of None \<Rightarrow> [] | Some content \<Rightarrow> content))"

definition fileExists :: "string \<Rightarrow> string \<Rightarrow> string \<Rightarrow> files \<Rightarrow> error + bool" where
  "fileExists cwd workspaceRoot filePath fs =
     (case resolveWorkspacePath (posix cwd) workspaceRoot filePath of
        Inl e \<Rightarrow> Inl e
      | Inr absolutePath \<Rightarrow> Inr (fs absolutePath \<noteq> None))"

definition deleteFileIfExists :: "string \<Rightarrow> string \<Rightarrow> string \<Rightarrow> files \<Rightarrow> error + files" where
  "deleteFileIfExists cwd workspaceRoot filePath fs =
     (case resolveWorkspacePath (posix cwd) workspaceRoot filePath of
        Inl e \<Rightarrow> Inl e
      | Inr absolutePath \<Rightarrow> Inr (fs(absolutePath := None)))"

record FileSnapshot =
  snap_path :: string
  snap_existed :: bool
  snap_before :: string
  snap_after :: string

record ChangeTracker =
  snapshots :: "string \<rightharpoonup> FileSnapshot"
  order :: "string list"

definition new_tracker :: ChangeTracker where
  "new_tracker = \<lparr> snapshots = Map.empty, order = [] \<rparr>"

definition recordBefore :: "string \<Rightarrow> bool \<Rightarrow> string \<Rightarrow> ChangeTracker \<Rightarrow> ChangeTracker" where
  "recordBefore path existed before t =
     (if snapshots t path \<noteq> None then t
      else t\<lparr> snapshots := (snapshots t)(path \<mapsto>
                  \<lparr> snap_path = path, snap_existed = existed,
                    snap_before = before, snap_after = before \<rparr>),
              order := order t @ [path] \<rparr>)"

definition recordAfter :: "string \<Rightarrow> string \<Rightarrow> ChangeTracker \<Rightarrow> ChangeTracker" where
  "recordAfter path after t =
     (case snapshots t path of
        None \<Rightarrow> t
      | Some existing \<Rightarrow> t\<lparr> snapshots := (snapshots t)(path \<mapsto> existing\<lparr> snap_after := after \<rparr>) \<rparr>)"

definition snapshot_changed :: "ChangeTracker \<Rightarrow> string \<Rightarrow> bool" where
  "snapshot_changed t path =
     (case snapshots t path of
        None \<Rightarrow> False
      | Some snapshot \<Rightarrow> snap_before snapshot \<noteq> snap_after snapshot)"

definition hasChanges :: "ChangeTracker \<Rightarrow> bool" where
  "hasChanges t = list_ex (snapshot_changed t) (order t)"

definition getChangedFiles :: "ChangeTracker \<Rightarrow> FileSnapshot list" where
  "getChangedFiles t =
     filter (\<lambda>snapshot. snap_before snapshot \<noteq> snap_after snapshot)
       (concat (map (\<lambda>path. case snapshots t path of None \<Rightarrow> [] | Some snapshot \<Rightarrow> [snapshot])
                    (order t)))"

text \<open>
  The loop of \<open>rollback\<close> over \<open>targets\<close>; an exception of \<open>writeFile\<close> or
  \<open>deleteFileIfExists\<close> leaves the function with the files as restored so far.
\<close>

fun rollback_loop ::
  "string \<Rightarrow> string \<Rightarrow> ChangeTracker \<Rightarrow> string list \<Rightarrow> files \<Rightarrow> string list
   \<Rightarrow> (error + string list) \<times> files" where
  "rollback_loop cwd workspaceRoot t [] fs restored = (Inr (rev restored), fs)"
| "rollback_loop cwd workspaceRoot t (path # targets) fs restored =
     (case snapshots t path of
        None \<Rightarrow> rollback_loop cwd workspaceRoot t targets fs restored
      | Some snapshot \<Rightarrow>
          (if snap_before snapshot = snap_after snapshot
           then rollback_loop cwd workspaceRoot t targets fs restored
           else case (if snap_existed snapshot
                      then writeFile cwd workspaceRoot (snap_path snapshot) (snap_before snapshot) fs
                      else deleteFileIfExists cwd workspaceRoot (snap_path snapshot) fs) of
                  Inl e \<Rightarrow> (Inl e, fs)
                | Inr fs' \<Rightarrow>
                    rollback_loop cwd workspaceRoot t targets fs' (restored @ [snap_path snapshot])))"

definition rollback ::
  "string \<Rightarrow> string \<Rightarrow> ChangeTracker \<Rightarrow> files \<Rightarrow> (error + string list) \<times> files" where
  "rollback cwd workspaceRoot t fs = rollback_loop cwd workspaceRoot t (rev (order t)) fs []"

text \<open>
  The two branches of the loop body as one step, and the steps over a list of snapshots,
  stopping at the first exception.
\<close>

definition restore_snapshot :: "string \<Rightarrow> string \<Rightarrow> FileSnapshot \<Rightarrow> files \<Rightarrow> error + files" where
  "restore_snapshot cwd root snapshot fs =
     (if snap_existed snapshot
      then writeFile cwd root (snap_path snapshot) (snap_before snapshot) fs
      else deleteFileIfExists cwd root (snap_path snapshot) fs)"

fun restore_all :: "string \<Rightarrow> string \<Rightarrow> FileSnapshot list \<Rightarrow> files \<Rightarrow> (error + unit) \<times> files" where
  "restore_all cwd root [] fs = (Inr (), fs)"
| "restore_all cwd root (snapshot # rest) fs =
     (case restore_snapshot cwd root snapshot fs of
        Inl e \<Rightarrow> (Inl e, fs)
      | Inr fs' \<Rightarrow> restore_all cwd root rest fs')"

definition restored_paths ::
  "(error + unit) \<times> files \<Rightarrow> string list \<Rightarrow> (error + string list) \<times> files" where
  "restored_paths outcome paths =
     (case outcome of
        (Inl e, fs') \<Rightarrow> (Inl e, fs')
      | (Inr u, fs') \<Rightarrow> (Inr paths, fs'))"

definition snapshots_of :: "ChangeTracker \<Rightarrow> string list \<Rightarrow> FileSnapshot list" where
  "snapshots_of t paths =
     concat (map (\<lambda>path. case snapshots t path of None \<Rightarrow> [] | Some snapshot \<Rightarrow> [snapshot]) paths)"

definition is_changed :: "FileSnapshot \<Rightarrow> bool" where
  "is_changed snapshot = (snap_before snapshot \<noteq> snap_after snapshot)"

text \<open>
  Rollback as the specification words it: every tracked snapshot is processed, in reverse
  order of first recording, and every tracked path is returned in chronological order.
\<close>

definition rollback_spec ::
  "string \<Rightarrow> string \<Rightarrow> ChangeTracker \<Rightarrow> files \<Rightarrow> (error + string list) \<times> files" where
  "rollback_spec cwd root t fs =
     restored_paths (restore_all cwd root (rev (snapshots_of t (order t))) fs)
       (map snap_path (snapshots_of t (order t)))"

section \<open>Policy (security/policy.ts)\<close>

text \<open>
  The regular-expression engine of the runtime is a parameter: \<open>RegExp source flags\<close> is
  \<open>None\<close> when the constructor throws a \<open>SyntaxError\<close>, and otherwise the \<open>test\<close> function of
  the expression.
\<close>

type_synonym regexp_engine = "string \<Rightarrow> string \<Rightarrow> (string \<Rightarrow> bool) option"

record AgentPolicy =
  allowRunCommand :: bool
  allowWrite :: bool
  allowedCommandPrefixes :: "string list"
  blockedCommandPatterns :: "string list"
  blockedWriteGlobs :: "string list"
  allowPotentialSecrets :: bool

record PolicyCheckResult =
  allowed :: bool
  reason :: "string option"

fun replace_all_from :: "string \<Rightarrow> string \<Rightarrow> nat \<Rightarrow> string \<Rightarrow> string" where
  "replace_all_from pat rep skip [] = []"
| "replace_all_from pat rep (Suc k) (c # cs) = replace_all_from pat rep k cs"
| "replace_all_from pat rep 0 (c # cs) =
     (if pat \<noteq> [] \<and> prefix pat (c # cs)
      then rep @ replace_all_from pat rep (length pat - 1) cs
      else c # replace_all_from pat rep 0 cs)"

definition replace_all :: "string \<Rightarrow> string \<Rightarrow> string \<Rightarrow> string" where
  "replace_all pat rep s = replace_all_from pat rep 0 s"

definition escape_regex_char :: "char \<Rightarrow> string" where
  "escape_regex_char c =
     (if c \<in> set (''.+^${}()|[]'' @ [CHR 0x5C]) then [CHR 0x5C, c] else [c])"

text \<open>The source text of the expression \<open>globToRegExp\<close> constructs (with the flag \<open>u\<close>).\<close>

definition globToRegExp :: "string \<Rightarrow> string" where
  "globToRegExp glob =
     (let escaped =
            replace_all ''%%DOUBLE_STAR%%'' ''.*''
              (replace_all ''*'' ''[^/]*''
                (replace_all ''**'' ''%%DOUBLE_STAR%%''
                  (concat (map escape_regex_char glob))))
      in ''^'' @ escaped @ ''$'')"

definition normalizePathForPolicy :: "string \<Rightarrow> string" where
  "normalizePathForPolicy inputPath = map (\<lambda>c. if c = CHR 0x5C then CHR ''/'' else c) inputPath"

fun blocked_pattern :: "regexp_engine \<Rightarrow> string list \<Rightarrow> string \<Rightarrow> string option" where
  "blocked_pattern RegExp [] normalized = None"
| "blocked_pattern RegExp (pattern # patterns) normalized =
     (case RegExp pattern ''iu'' of
        Some test \<Rightarrow>
          (if test normalized
           then Some (''Command blocked by policy pattern: '' @ pattern)
           else blocked_pattern RegExp patterns normalized)
      | None \<Rightarrow>
          (if js_includes (js_toLowerCase normalized) (js_toLowerCase pattern)
           then Some (''Command blocked by policy text match: '' @ pattern)
           else blocked_pattern RegExp patterns normalized))"

definition isCommandAllowed :: "regexp_engine \<Rightarrow> AgentPolicy \<Rightarrow> string \<Rightarrow> PolicyCheckResult" where
  "isCommandAllowed RegExp policy cmd =
     (if \<not> allowRunCommand policy
      then \<lparr> allowed = False, reason = Some ''Policy blocks run_command actions.'' \<rparr>
      else (let normalized = js_trim cmd
            in if normalized = []
               then \<lparr> allowed = False, reason = Some ''Empty command is not allowed.'' \<rparr>
               else case blocked_pattern RegExp (blockedCommandPatterns policy) normalized of
                 Some why \<Rightarrow> \<lparr> allowed = False, reason = Some why \<rparr>
               | None \<Rightarrow>
                   (if length (allowedCommandPrefixes policy) > 0
                       \<and> \<not> list_ex (\<lambda>p. prefix p normalized) (allowedCommandPrefixes policy)
                    then \<lparr> allowed = False,
                           reason = Some (''Command must start with one of: ''
                                          @ js_join '', '' (allowedCommandPrefixes policy)) \<rparr>
                    else \<lparr> allowed = True, reason = None \<rparr>)))"

fun blocked_glob :: "regexp_engine \<Rightarrow> string list \<Rightarrow> string \<Rightarrow> error + string option" where
  "blocked_glob RegExp [] normalizedPath = Inr None"
| "blocked_glob RegExp (glob # globs) normalizedPath =
     (case RegExp (globToRegExp glob) ''u'' of
        None \<Rightarrow> Inl (SyntaxError (globToRegExp glob))
      | Some test \<Rightarrow>
          (if test normalizedPath
           then Inr (Some (''Write path blocked by policy glob: '' @ glob))
           else blocked_glob RegExp globs normalizedPath))"

definition isWritePathAllowed ::
  "regexp_engine \<Rightarrow> AgentPolicy \<Rightarrow> string \<Rightarrow> error + PolicyCheckResult" where
  "isWritePathAllowed RegExp policy relativePath =
     (if \<not> allowWrite policy
      then Inr \<lparr> allowed = False, reason = Some ''Policy blocks write_file actions.'' \<rparr>
      else case blocked_glob RegExp (blockedWriteGlobs policy) (normalizePathForPolicy relativePath) of
        Inl e \<Rightarrow> Inl e
      | Inr (Some why) \<Rightarrow> Inr \<lparr> allowed = False, reason = Some why \<rparr>
      | Inr None \<Rightarrow> Inr \<lparr> allowed = True, reason = None \<rparr>)"


section \<open>Action dispatch (agent/codingAgent.ts, \<open>executeAction\<close> and \<open>runVerifyCommand\<close>)\<close>

record RuntimeConfig =
  workspaceRoot :: string
  apiKey :: string
  maxIterations :: nat
  maxToolOutputChars :: int
  autoRepairMaxRounds :: nat
  autoVerify :: bool

text \<open>
  The summary line of a tool result, as its template and the values put into it; the
  added and removed line counts of a write come from the \<open>diff\<close> package and are left out.
\<close>

datatype summary_text =
    BlockedByPolicy "string option"
  | SecretsDetected
  | SkippedNoChanges string
  | UserRejectedWrite string
  | WroteFile string
  | CommandPassed string
  | CommandFailed "int option" bool string
  | VerifyPassed string
  | VerifyFailed "int option" bool string
  | VerifyError string string
  | ToolFailed error
  | ToolSucceeded

datatype tool_data =
    NoData
  | WriteData string bool
  | SecretData string "SecretFinding list" bool
  | RunData CommandResult

record ToolResult =
  tool :: string
  ok :: bool
  summary :: summary_text
  data :: tool_data

text \<open>
  What one task changes: the workspace files, the change tracker and the audit log (the
  type of each event and the path it names).
\<close>

record world =
  w_files :: files
  w_tracker :: ChangeTracker
  w_audit :: "(string \<times> string) list"

definition safeAuditLog :: "string \<Rightarrow> string \<Rightarrow> world \<Rightarrow> world" where
  "safeAuditLog type detail w = w\<lparr> w_audit := w_audit w @ [(type, detail)] \<rparr>"

text \<open>
  The values one action awaits from outside: the answer to \<open>ui.confirm\<close>, the settled
  promise of \<open>runShellCommand\<close> (\<open>Inl\<close> when it rejected) and, for the tools that are not
  modelled further, the message of the exception they threw, if any.
\<close>

record action_env =
  ae_approve :: bool
  ae_run :: "string + CommandResult"
  ae_other :: "string option"

definition tool_of :: "AgentAction \<Rightarrow> string" where
  "tool_of action =
     (case action of
        ListFiles _ _ _ _ \<Rightarrow> ''list_files''
      | ReadFile _ _ _ \<Rightarrow> ''read_file''
      | Grep _ _ _ \<Rightarrow> ''grep''
      | RunCommand _ \<Rightarrow> ''run_command''
      | WriteFile _ _ \<Rightarrow> ''write_file''
      | ScanProject _ _ \<Rightarrow> ''scan_project''
      | SymbolLookup _ _ _ \<Rightarrow> ''symbol_lookup''
      | FindReferences _ _ _ \<Rightarrow> ''find_references''
      | DependencyMap \<Rightarrow> ''dependency_map''
      | MemorySet _ _ \<Rightarrow> ''memory_set''
      | MemoryGet _ \<Rightarrow> ''memory_get'')"

text \<open>The \<open>run_command\<close> case, inside the \<open>try\<close>.\<close>

definition run_command_case ::
  "regexp_engine \<Rightarrow> AgentPolicy \<Rightarrow> action_env \<Rightarrow> string \<Rightarrow> error + ToolResult" where
  "run_command_case RegExp policy env cmd =
     (let commandCheck = isCommandAllowed RegExp policy cmd
      in if \<not> allowed commandCheck
         then Inr \<lparr> tool = ''run_command'', ok = False,
                    summary = BlockedByPolicy (reason commandCheck), data = NoData \<rparr>
         else case ae_run env of
           Inl msg \<Rightarrow> Inl (IOError msg)
         | Inr run \<Rightarrow>
             (let success = (exitCode run = Some 0 \<and> \<not> timedOut run)
              in Inr \<lparr> tool = ''run_command'', ok = success,
                       summary = (if success then CommandPassed cmd
                                  else CommandFailed (exitCode run) (timedOut run) cmd),
                       data = RunData run \<rparr>))"

text \<open>The \<open>write_file\<close> case, inside the \<open>try\<close>.\<close>

definition write_file_case ::
  "regexp_engine \<Rightarrow> string \<Rightarrow> RuntimeConfig \<Rightarrow> AgentPolicy \<Rightarrow> action_env \<Rightarrow> string \<Rightarrow> string
   \<Rightarrow> world \<Rightarrow> (error + ToolResult) \<times> world" where
  "write_file_case RegExp cwd config policy env path content w =
     (case isWritePathAllowed RegExp policy path of
        Inl e \<Rightarrow> (Inl e, w)
      | Inr writePathCheck \<Rightarrow>
     (if \<not> allowed writePathCheck
      then (Inr \<lparr> tool = ''write_file'', ok = False,
                  summary = BlockedByPolicy (reason writePathCheck),
                  data = WriteData path False \<rparr>, w)
      else (let secretFindings = detectSecrets content
      in if length secretFindings > 0 \<and> \<not> allowPotentialSecrets policy
         then (Inr \<lparr> tool = ''write_file'', ok = False, summary = SecretsDetected,
                     data = SecretData path secretFindings False \<rparr>, w)
         else case fileExists cwd (workspaceRoot config) path (w_files w) of
           Inl e \<Rightarrow> (Inl e, w)
         | Inr existed \<Rightarrow>
        (case readFileIfExists cwd (workspaceRoot config) path (w_files w) of
           Inl e \<Rightarrow> (Inl e, w)
         | Inr before \<Rightarrow>
        (let after = content
         in if before = after
            then (Inr \<lparr> tool = ''write_file'', ok = True, summary = SkippedNoChanges path,
                        data = WriteData path False \<rparr>, w)
            else (let w1 = safeAuditLog ''write_proposed'' path w
            in if \<not> ae_approve env
               then (Inr \<lparr> tool = ''write_file'', ok = False, summary = UserRejectedWrite path,
                           data = WriteData path False \<rparr>,
                     safeAuditLog ''write_rejected'' path w1)
               else (let w2 = w1\<lparr> w_tracker := recordBefore path existed before (w_tracker w1) \<rparr>
               in case writeFile cwd (workspaceRoot config) path after (w_files w2) of
                    Inl e \<Rightarrow> (Inl e, w2)
                  | Inr fs' \<Rightarrow>
                      (Inr \<lparr> tool = ''write_file'', ok = True, summary = WroteFile path,
                             data = WriteData path True \<rparr>,
                       safeAuditLog ''write_applied'' path
                         (w2\<lparr> w_files := fs',
                              w_tracker := recordAfter path after (w_tracker w2) \<rparr>)))))))))"

text \<open>
  \<open>executeAction\<close>: the \<open>switch\<close> inside the \<open>try\<close>, and the \<open>catch\<close> that turns an exception
  into a failed tool result. The nine tools that neither write workspace files through the
  tracker nor run a shell command are represented by their outcome alone.
\<close>

definition executeAction ::
  "regexp_engine \<Rightarrow> string \<Rightarrow> RuntimeConfig \<Rightarrow> AgentPolicy \<Rightarrow> action_env \<Rightarrow> AgentAction
   \<Rightarrow> world \<Rightarrow> ToolResult \<times> world" where
  "executeAction RegExp cwd config policy env action w =
     (let (attempt, w') =
            (case action of
               RunCommand cmd \<Rightarrow> (run_command_case RegExp policy env cmd, w)
             | WriteFile path content \<Rightarrow>
                 write_file_case RegExp cwd config policy env path content w
             | _ \<Rightarrow>
                 (case ae_other env of
                    Some msg \<Rightarrow> (Inl (IOError msg), w)
                  | None \<Rightarrow> (Inr \<lparr> tool = tool_of action, ok = True,
                                    summary = ToolSucceeded, data = NoData \<rparr>, w)))
      in case attempt of
           Inr result \<Rightarrow> (result, w')
         | Inl e \<Rightarrow> (\<lparr> tool = tool_of action, ok = False,
                        summary = ToolFailed e, data = NoData \<rparr>, w'))"

definition runVerifyCommand ::
  "regexp_engine \<Rightarrow> AgentPolicy \<Rightarrow> (string + CommandResult) \<Rightarrow> string \<Rightarrow> ToolResult" where
  "runVerifyCommand RegExp policy settled cmd =
     (let commandCheck = isCommandAllowed RegExp policy cmd
      in if \<not> allowed commandCheck
         then \<lparr> tool = ''verify'', ok = False,
                summary = BlockedByPolicy (reason commandCheck), data = NoData \<rparr>
         else case settled of
           Inl msg \<Rightarrow> \<lparr> tool = ''verify'', ok = False,
                        summary = VerifyError cmd msg, data = NoData \<rparr>
         | Inr run \<Rightarrow>
             (let ok' = (exitCode run = Some 0 \<and> \<not> timedOut run)
              in \<lparr> tool = ''verify'', ok = ok',
                   summary = (if ok' then VerifyPassed cmd
                              else VerifyFailed (exitCode run) (timedOut run) cmd),
                   data = RunData run \<rparr>))"

section \<open>Auto-verify discovery (reliability/autoVerify.ts)\<close>

record ProjectMemory =
  projectRules :: "string list"
  architectureNotes :: "string list"
  commonCommands :: "string list"
  kv :: "(string \<times> string) list"
  updatedAt :: string

definition readFileOrEmpty :: "string \<Rightarrow> string \<Rightarrow> files \<Rightarrow> string \<Rightarrow> string" where
  "readFileOrEmpty cwd root fs relativePath =
     (case resolveWorkspacePath (posix cwd) root relativePath of
        Inl e \<Rightarrow> []
      | Inr absolutePath \<Rightarrow> (case fs absolutePath of None \<Rightarrow> [] | Some content \<Rightarrow> content))"

definition addUnique :: "string list \<Rightarrow> string \<Rightarrow> string list" where
  "addUnique target v = (if v \<in> set target then target else target @ [v])"

definition script_present :: "json \<Rightarrow> string \<Rightarrow> bool" where
  "script_present scripts name =
     (case js_get scripts name of None \<Rightarrow> False | Some v \<Rightarrow> js_truthy v)"

text \<open>
  The body of the \<open>try\<close> in \<open>detectNodeVerifyCommands\<close> once \<open>scripts\<close> is known; nothing in
  it throws.
\<close>

definition node_script_commands :: "json \<Rightarrow> string list" where
  "node_script_commands scripts =
     (let c0 = [];
          c1 = (if script_present scripts ''test''
                then addUnique c0 ''npm run -s test --if-present'' else c0);
          c2 = (if script_present scripts ''lint''
                then addUnique c1 ''npm run -s lint --if-present'' else c1);
          c3 = (if script_present scripts ''format:check''
                then addUnique c2 ''npm run -s format:check --if-present''
                else if script_present scripts ''format''
                then addUnique c2 ''npm run -s format --if-present'' else c2);
          c4 = (if script_present scripts ''typecheck''
                then addUnique c3 ''npm run -s typecheck --if-present'' else c3);
          c5 = (if script_present scripts ''check''
                then addUnique c4 ''npm run -s check --if-present'' else c4)
      in c5)"

text \<open>
  \<open>JSON.parse\<close> throwing, and \<open>parsed.scripts\<close> throwing because \<open>parsed\<close> is \<open>null\<close>, are
  both caught with \<open>commands\<close> still empty.
\<close>

definition detectNodeVerifyCommands :: "(string \<Rightarrow> json option) \<Rightarrow> string \<Rightarrow> string list" where
  "detectNodeVerifyCommands JSON_parse packageJsonRaw =
     (if js_trim packageJsonRaw = [] then []
      else case JSON_parse packageJsonRaw of
        None \<Rightarrow> []
      | Some JNull \<Rightarrow> []
      | Some parsed \<Rightarrow>
          node_script_commands
            (case js_get parsed ''scripts'' of
               None \<Rightarrow> JObj []
             | Some JNull \<Rightarrow> JObj []
             | Some scripts \<Rightarrow> scripts))"

definition detectPythonVerifyCommands :: "string \<Rightarrow> string \<Rightarrow> string \<Rightarrow> string \<Rightarrow> string list" where
  "detectPythonVerifyCommands pyproject requirements requirementsDev setupCfg =
     (let combined = js_toLowerCase
                       (js_join [CHR 0x0A] [pyproject, requirements, requirementsDev, setupCfg]);
          c0 = [];
          c1 = (if js_includes combined ''pytest'' then addUnique c0 ''pytest -q'' else c0);
          c2 = (if js_includes combined ''ruff'' then addUnique c1 ''ruff check .'' else c1);
          c3 = (if js_includes combined ''black'' then addUnique c2 ''black --check .'' else c2);
          c4 = (if js_includes combined ''mypy'' then addUnique c3 ''mypy .'' else c3)
      in c4)"

fun memory_verify_loop :: "string list \<Rightarrow> string list \<Rightarrow> string list" where
  "memory_verify_loop [] commands = commands"
| "memory_verify_loop (raw # rest) commands =
     (let trimmed = js_trim raw
      in if trimmed = [] then memory_verify_loop rest commands
         else if prefix ''verify:'' (js_toLowerCase trimmed)
         then memory_verify_loop rest
                (addUnique commands (js_trim (drop (length ''verify:'') trimmed)))
         else memory_verify_loop rest commands)"

definition extractMemoryVerifyCommands :: "ProjectMemory \<Rightarrow> string list" where
  "extractMemoryVerifyCommands memory = memory_verify_loop (commonCommands memory) []"

definition discoverAutoVerifyCommands ::
  "(string \<Rightarrow> json option) \<Rightarrow> string \<Rightarrow> string \<Rightarrow> files \<Rightarrow> ProjectMemory \<Rightarrow> int \<Rightarrow> string list" where
  "discoverAutoVerifyCommands JSON_parse cwd root fs memory maxCommands =
     (let packageJsonRaw = readFileOrEmpty cwd root fs ''package.json'';
          pyproject = readFileOrEmpty cwd root fs ''pyproject.toml'';
          requirements = readFileOrEmpty cwd root fs ''requirements.txt'';
          requirementsDev = readFileOrEmpty cwd root fs ''requirements-dev.txt'';
          setupCfg = readFileOrEmpty cwd root fs ''setup.cfg'';
          commands1 = foldl addUnique [] (extractMemoryVerifyCommands memory);
          commands2 = foldl addUnique commands1 (detectNodeVerifyCommands JSON_parse packageJsonRaw);
          commands3 = foldl addUnique commands2
                        (detectPythonVerifyCommands pyproject requirements requirementsDev setupCfg)
      in take (nat (max 1 maxCommands)) commands3)"

text \<open>
  The entries of memory that contribute a command, in the code's reading (the trimmed
  entry starts with \<open>verify:\<close> in any letter case) and the command each contributes.
\<close>

definition is_verify_entry :: "string \<Rightarrow> bool" where
  "is_verify_entry raw = prefix ''verify:'' (js_toLowerCase (js_trim raw))"

definition verify_entry_command :: "string \<Rightarrow> string" where
  "verify_entry_command raw = js_trim (drop (length ''verify:'') (js_trim raw))"

text \<open>Keeping the first occurrence of every element.\<close>

definition dedup_first :: "string list \<Rightarrow> string list" where
  "dedup_first xs = rev (remdups (rev xs))"

text \<open>
  The discovery as the specification words it: the entries that start with the literal
  prefix \<open>verify:\<close> contribute the text after the colon, and the result is cut to
  \<open>maxCommands\<close>.
\<close>

definition discover_spec ::
  "(string \<Rightarrow> json option) \<Rightarrow> string \<Rightarrow> string \<Rightarrow> files \<Rightarrow> ProjectMemory \<Rightarrow> int \<Rightarrow> string list" where
  "discover_spec JSON_parse cwd root fs memory maxCommands =
     take (nat maxCommands)
       (dedup_first
          (map (drop 7) (filter (prefix ''verify:'') (commonCommands memory))
           @ detectNodeVerifyCommands JSON_parse (readFileOrEmpty cwd root fs ''package.json'')
           @ detectPythonVerifyCommands (readFileOrEmpty cwd root fs ''pyproject.toml'')
               (readFileOrEmpty cwd root fs ''requirements.txt'')
               (readFileOrEmpty cwd root fs ''requirements-dev.txt'')
               (readFileOrEmpty cwd root fs ''setup.cfg'')))"

section \<open>File listing (tools/fileTools.ts, \<open>listFiles\<close>)\<close>

text \<open>
  A directory tree as \<open>fs.readdir\<close> shows it: a directory is the list of its entries by
  name. \<open>localeCompare\<close> belongs to the runtime and is a parameter; \<open>Array.prototype.sort\<close>
  with it is a stable sort.
\<close>

datatype fsnode = FileNode | DirNode "(string \<times> fsnode) list"

fun insert_by :: "('a \<Rightarrow> 'a \<Rightarrow> int) \<Rightarrow> 'a \<Rightarrow> 'a list \<Rightarrow> 'a list" where
  "insert_by cmp x [] = [x]"
| "insert_by cmp x (y # ys) = (if cmp x y \<le> 0 then x # y # ys else y # insert_by cmp x ys)"

definition sort_by :: "('a \<Rightarrow> 'a \<Rightarrow> int) \<Rightarrow> 'a list \<Rightarrow> 'a list" where
  "sort_by cmp xs = foldr (insert_by cmp) xs []"

text \<open>The tree with the entries of every directory in the order \<open>walk\<close> visits them.\<close>

fun sort_tree :: "(string \<Rightarrow> string \<Rightarrow> int) \<Rightarrow> fsnode \<Rightarrow> fsnode" where
  "sort_tree localeCompare FileNode = FileNode"
| "sort_tree localeCompare (DirNode entries) =
     DirNode (sort_by (\<lambda>a b. localeCompare (fst a) (fst b))
                (map (\<lambda>(name, node). (name, sort_tree localeCompare node)) entries))"

definition DEFAULT_IGNORED_DIRS :: "string list" where
  "DEFAULT_IGNORED_DIRS =
     [''.git'', ''.idea'', ''.vscode'', ''node_modules'', ''dist'', ''build'', ''coverage'',
      ''.next'', ''.turbo'']"

definition relative_entry :: "string \<Rightarrow> string \<Rightarrow> string" where
  "relative_entry dir name = (if dir = [] then name else dir @ ''/'' @ name)"

text \<open>
  The loop of \<open>walk(currentPath, depth)\<close> over the sorted entries of the directory whose
  workspace-relative path is \<open>dir\<close>; \<open>results\<close> is the array the calls share.
\<close>

fun walk :: "bool \<Rightarrow> int \<Rightarrow> int \<Rightarrow> string \<Rightarrow> int \<Rightarrow> (string \<times> fsnode) list \<Rightarrow> string list
             \<Rightarrow> string list" where
  "walk recursive maxDepth maxEntries dir depth [] results = results"
| "walk recursive maxDepth maxEntries dir depth ((name, FileNode) # rest) results =
     (if int (length results) \<ge> maxEntries then results
      else walk recursive maxDepth maxEntries dir depth rest
             (results @ [relative_entry dir name]))"
| "walk recursive maxDepth maxEntries dir depth ((name, DirNode entries) # rest) results =
     (if int (length results) \<ge> maxEntries then results
      else if name \<in> set DEFAULT_IGNORED_DIRS
      then walk recursive maxDepth maxEntries dir depth rest results
      else walk recursive maxDepth maxEntries dir depth rest
             (if recursive \<and> depth < maxDepth
              then walk recursive maxDepth maxEntries (relative_entry dir name) (depth + 1) entries
                     (results @ [relative_entry dir name @ ''/''])
              else results @ [relative_entry dir name @ ''/'']))"

text \<open>
  \<open>listFiles\<close> for the workspace root itself (\<open>path\<close> absent or \<open>.\<close>), whose node is \<open>tree\<close>.
\<close>

definition listFiles :: "(string \<Rightarrow> string \<Rightarrow> int) \<Rightarrow> fsnode \<Rightarrow> bool \<Rightarrow> int \<Rightarrow> int \<Rightarrow> string list" where
  "listFiles localeCompare tree recursive maxDepth maxEntries =
     (case sort_tree localeCompare tree of
        FileNode \<Rightarrow> [[]]
      | DirNode entries \<Rightarrow> walk recursive maxDepth maxEntries [] 0 entries [])"

section \<open>Text search (tools/searchTools.ts)\<close>

text \<open>
  \<open>path.extname\<close> on POSIX: the text from the last dot of the last non-empty segment,
  unless that segment has no dot, starts with its only dot, or is \<open>..\<close>.
\<close>

definition posix_extname :: "string \<Rightarrow> string" where
  "posix_extname p =
     (let segs = filter (\<lambda>s. s \<noteq> []) (split_on CHR ''/'' p);
          base = (if segs = [] then [] else last segs)
      in case last_index_of CHR ''.'' base of
           None \<Rightarrow> []
         | Some i \<Rightarrow> (if i = 0 \<or> base = ''..'' then [] else drop i base))"

definition binaryLikeExt :: "string list" where
  "binaryLikeExt =
     [''.png'', ''.jpg'', ''.jpeg'', ''.gif'', ''.webp'', ''.bmp'', ''.ico'', ''.pdf'', ''.zip'',
      ''.gz'', ''.tar'', ''.7z'', ''.exe'', ''.dll'', ''.so'', ''.dylib'', ''.class'', ''.jar'',
      ''.mp3'', ''.mp4'', ''.mov'', ''.avi'']"

definition canReadAsText :: "string \<Rightarrow> bool" where
  "canReadAsText filePath = (js_toLowerCase (posix_extname filePath) \<notin> set binaryLikeExt)"

definition compileLineMatcher :: "regexp_engine \<Rightarrow> string \<Rightarrow> string \<Rightarrow> bool" where
  "compileLineMatcher RegExp pattern =
     (case RegExp pattern [] of
        Some test \<Rightarrow> test
      | None \<Rightarrow> (\<lambda>line. js_includes (js_toLowerCase line) (js_toLowerCase pattern)))"

text \<open>\<open>raw.split(/\r?\n/u)\<close>: a carriage return right before a line feed goes with it.\<close>

fun strip_cr :: "string list \<Rightarrow> string list" where
  "strip_cr [] = []"
| "strip_cr [l] = [l]"
| "strip_cr (l # m # ls) =
     (if l \<noteq> [] \<and> last l = CHR 0x0D then butlast l else l) # strip_cr (m # ls)"

definition js_split_lines :: "string \<Rightarrow> string list" where
  "js_split_lines raw = strip_cr (split_on CHR 0x0A raw)"

record GrepMatch =
  gm_path :: string
  gm_line :: nat
  gm_text :: string

record GrepResult =
  backend :: string
  matches :: "GrepMatch list"
  totalScannedFiles :: nat

text \<open>
  What a search awaits from outside: the cached answer of \<open>hasRipgrep\<close>, the settled
  promise of \<open>grepWithRipgrep\<close> for a pattern, a glob and a limit (\<open>None\<close> when it
  rejected), the directory tree, \<open>fs.readFile\<close> by absolute path (\<open>None\<close> when it throws)
  and the runtime's \<open>localeCompare\<close> and \<open>RegExp\<close>.
\<close>

record grep_env =
  ge_hasRipgrep :: bool
  ge_ripgrep :: "string \<Rightarrow> string option \<Rightarrow> int \<Rightarrow> GrepResult option"
  ge_tree :: fsnode
  ge_readFile :: "string \<Rightarrow> string option"
  ge_localeCompare :: "string \<Rightarrow> string \<Rightarrow> int"
  ge_RegExp :: regexp_engine

fun grep_lines :: "(string \<Rightarrow> bool) \<Rightarrow> int \<Rightarrow> string \<Rightarrow> nat \<Rightarrow> string list \<Rightarrow> GrepMatch list
                   \<Rightarrow> GrepMatch list" where
  "grep_lines matcher maxMatches file index [] found = found"
| "grep_lines matcher maxMatches file index (line # lines) found =
     (if int (length found) \<ge> maxMatches then found
      else grep_lines matcher maxMatches file (Suc index) lines
             (if matcher line
              then found @ [\<lparr> gm_path = file, gm_line = index + 1, gm_text = line \<rparr>]
              else found))"

fun grep_files ::
  "string \<Rightarrow> string \<Rightarrow> (string \<Rightarrow> string option) \<Rightarrow> (string \<Rightarrow> bool) \<Rightarrow> int \<Rightarrow> string list
   \<Rightarrow> GrepMatch list \<Rightarrow> nat \<Rightarrow> error + GrepMatch list \<times> nat" where
  "grep_files cwd root readFile matcher maxMatches [] found scannedFiles = Inr (found, scannedFiles)"
| "grep_files cwd root readFile matcher maxMatches (file # files) found scannedFiles =
     (if int (length found) \<ge> maxMatches then Inr (found, scannedFiles)
      else case resolveWorkspacePath (posix cwd) root file of
        Inl e \<Rightarrow> Inl e
      | Inr absolute \<Rightarrow>
          (case readFile absolute of
             None \<Rightarrow> grep_files cwd root readFile matcher maxMatches files found scannedFiles
           | Some raw \<Rightarrow>
               grep_files cwd root readFile matcher maxMatches files
                 (grep_lines matcher maxMatches file 0 (js_split_lines raw) found)
                 (Suc scannedFiles)))"

definition grep_candidates :: "grep_env \<Rightarrow> string list" where
  "grep_candidates env =
     filter (\<lambda>file. \<not> suffix ''/'' file \<and> canReadAsText file)
       (listFiles (ge_localeCompare env) (ge_tree env) True 8 2500)"

definition grepWithJs :: "string \<Rightarrow> string \<Rightarrow> grep_env \<Rightarrow> string \<Rightarrow> int \<Rightarrow> error + GrepResult" where
  "grepWithJs cwd root env pattern maxMatches =
     (let matcher = compileLineMatcher (ge_RegExp env) pattern;
          filePaths = grep_candidates env
      in case grep_files cwd root (ge_readFile env) matcher maxMatches filePaths [] 0 of
           Inl e \<Rightarrow> Inl e
         | Inr (found, scannedFiles) \<Rightarrow>
             Inr \<lparr> backend = ''js'', matches = found, totalScannedFiles = scannedFiles \<rparr>)"

definition grepWorkspace ::
  "string \<Rightarrow> string \<Rightarrow> grep_env \<Rightarrow> string \<Rightarrow> string option \<Rightarrow> int \<Rightarrow> error + GrepResult" where
  "grepWorkspace cwd root env pattern glob maxMatches =
     (if ge_hasRipgrep env
      then (case ge_ripgrep env pattern glob maxMatches of
              Some result \<Rightarrow> Inr result
            | None \<Rightarrow> grepWithJs cwd root env pattern maxMatches)
      else grepWithJs cwd root env pattern maxMatches)"

text \<open>The matches of one file, were there no limit.\<close>

fun line_matches :: "(string \<Rightarrow> bool) \<Rightarrow> string \<Rightarrow> nat \<Rightarrow> string list \<Rightarrow> GrepMatch list" where
  "line_matches matcher file index [] = []"
| "line_matches matcher file index (line # lines) =
     (if matcher line then [\<lparr> gm_path = file, gm_line = index + 1, gm_text = line \<rparr>] else [])
     @ line_matches matcher file (Suc index) lines"

definition file_matches ::
  "string \<Rightarrow> string \<Rightarrow> (string \<Rightarrow> string option) \<Rightarrow> (string \<Rightarrow> bool) \<Rightarrow> string \<Rightarrow> GrepMatch list" where
  "file_matches cwd root readFile matcher file =
     (case resolveWorkspacePath (posix cwd) root file of
        Inl e \<Rightarrow> []
      | Inr absolute \<Rightarrow>
          (case readFile absolute of
             None \<Rightarrow> []
           | Some raw \<Rightarrow> line_matches matcher file 0 (js_split_lines raw)))"

text \<open>
  The listing of a directory without the limit on the number of entries: every entry in
  order, a directory (unless ignored) as its path with a slash, followed by the listing of
  its own entries when it may be entered. The directory tree is as \<open>sort_tree\<close> leaves it.
\<close>

fun tree_listing :: "bool \<Rightarrow> int \<Rightarrow> string \<Rightarrow> int \<Rightarrow> (string \<times> fsnode) list \<Rightarrow> string list" where
  "tree_listing recursive maxDepth dir depth [] = []"
| "tree_listing recursive maxDepth dir depth ((name, FileNode) # rest) =
     relative_entry dir name # tree_listing recursive maxDepth dir depth rest"
| "tree_listing recursive maxDepth dir depth ((name, DirNode entries) # rest) =
     (if name \<in> set DEFAULT_IGNORED_DIRS then tree_listing recursive maxDepth dir depth rest
      else (relative_entry dir name @ ''/'')
           # (if recursive \<and> depth < maxDepth
              then tree_listing recursive maxDepth (relative_entry dir name) (depth + 1) entries
              else [])
           @ tree_listing recursive maxDepth dir depth rest)"

text \<open>
  \<open>file_at entries names\<close>: following \<open>names\<close> from a directory with these entries leads
  through directories that are not ignored to a file.
\<close>

fun file_at :: "(string \<times> fsnode) list \<Rightarrow> string list \<Rightarrow> bool" where
  "file_at [] names = False"
| "file_at ((name, FileNode) # rest) names = (names = [name] \<or> file_at rest names)"
| "file_at ((name, DirNode entries) # rest) names =
     ((case names of
         [] \<Rightarrow> False
       | n # ns \<Rightarrow> n = name \<and> name \<notin> set DEFAULT_IGNORED_DIRS \<and> file_at entries ns)
      \<or> file_at rest names)"

section \<open>Project scanner (codeintel/projectScanner.ts, codeintel/language.ts)\<close>

datatype SupportedLanguage = Typescript | Javascript | Python | UnknownLanguage

definition detectLanguage :: "string \<Rightarrow> SupportedLanguage" where
  "detectLanguage filePath =
     (let ext = js_toLowerCase (posix_extname filePath)
      in if ext \<in> set [''.ts'', ''.tsx'', ''.mts'', ''.cts''] then Typescript
         else if ext \<in> set [''.js'', ''.jsx'', ''.mjs'', ''.cjs''] then Javascript
         else if ext \<in> set [''.py''] then Python
         else UnknownLanguage)"

definition isLanguageIndexed :: "SupportedLanguage \<Rightarrow> bool" where
  "isLanguageIndexed language = (language = Typescript \<or> language = Javascript \<or> language = Python)"

record SourceFileSummary =
  sf_path :: string
  sf_language :: SupportedLanguage
  sf_sizeBytes :: int
  sf_lineCount :: nat

record SymbolEntry =
  sym_name :: string
  sym_kind :: string
  sym_path :: string
  sym_line :: nat
  sym_language :: SupportedLanguage
  sym_exported :: bool

record ImportEntry =
  imp_path :: string
  imp_line :: nat
  imp_language :: SupportedLanguage
  imp_source :: string
  imp_imported :: "string list"

record UseEntry =
  use_name :: string
  use_path :: string
  use_line :: nat
  use_language :: SupportedLanguage

record ParsedSourceFile =
  ps_symbols :: "SymbolEntry list"
  ps_imports :: "ImportEntry list"
  ps_uses :: "UseEntry list"

record DependencyMap =
  dep_node :: "(string \<times> string) list"
  dep_nodeDev :: "(string \<times> string) list"
  dep_python :: "(string \<times> string) list"
  dep_pythonDev :: "(string \<times> string) list"

text \<open>\<open>generatedAt\<close> is the wall-clock time of the build and is left out.\<close>

record ProjectIndex =
  pi_workspaceRoot :: string
  totalFilesScanned :: nat
  languages :: "SupportedLanguage \<rightharpoonup> nat"
  pi_files :: "SourceFileSummary list"
  pi_symbols :: "SymbolEntry list"
  pi_imports :: "ImportEntry list"
  pi_uses :: "UseEntry list"
  pi_dependencies :: DependencyMap

text \<open>
  What a scan awaits from outside: the directory tree and \<open>localeCompare\<close>, \<open>fs.stat\<close> by
  absolute path (\<open>None\<close> when it throws, else whether the entry is a regular file and its
  size), \<open>fs.readFile\<close>, what \<open>buildDependencyMap\<close> settles with, and what the two adapters
  extract from a file (\<open>None\<close> where one of them throws). The override of \<open>maxFiles\<close> is
  taken to be a whole number.
\<close>

record scan_env =
  se_tree :: fsnode
  se_localeCompare :: "string \<Rightarrow> string \<Rightarrow> int"
  se_stat :: "string \<Rightarrow> (bool \<times> int) option"
  se_readFile :: "string \<Rightarrow> string option"
  se_tsJs :: "string \<Rightarrow> string \<Rightarrow> SupportedLanguage \<Rightarrow> ParsedSourceFile option"
  se_python :: "string \<Rightarrow> string \<Rightarrow> ParsedSourceFile option"
  se_dependencies :: "DependencyMap option"

text \<open>
  Both adapters build every entry they push with \<open>path: filePath\<close>; which entries they push
  is left to the environment.
\<close>

definition with_path :: "string \<Rightarrow> ParsedSourceFile \<Rightarrow> ParsedSourceFile" where
  "with_path filePath parsed =
     \<lparr> ps_symbols = map (\<lambda>s. s\<lparr> sym_path := filePath \<rparr>) (ps_symbols parsed),
       ps_imports = map (\<lambda>i. i\<lparr> imp_path := filePath \<rparr>) (ps_imports parsed),
       ps_uses = map (\<lambda>u. u\<lparr> use_path := filePath \<rparr>) (ps_uses parsed) \<rparr>"

definition parseTsOrJsFile ::
  "scan_env \<Rightarrow> string \<Rightarrow> string \<Rightarrow> SupportedLanguage \<Rightarrow> ParsedSourceFile option" where
  "parseTsOrJsFile env filePath content language =
     map_option (with_path filePath) (se_tsJs env filePath content language)"

definition parsePythonFile :: "scan_env \<Rightarrow> string \<Rightarrow> string \<Rightarrow> ParsedSourceFile option" where
  "parsePythonFile env filePath content =
     map_option (with_path filePath) (se_python env filePath content)"

definition limitValue :: "int option \<Rightarrow> int \<Rightarrow> int" where
  "limitValue v fallback =
     (case v of
        None \<Rightarrow> fallback
      | Some n \<Rightarrow> (if n = 0 \<or> n \<le> 0 then fallback else min n 2000))"

text \<open>\<open>xs.slice(0, n)\<close>: a negative \<open>n\<close> counts from the end.\<close>

definition js_slice_to :: "int \<Rightarrow> 'a list \<Rightarrow> 'a list" where
  "js_slice_to n xs = (if n \<ge> 0 then take (nat n) xs else take (length xs - nat (- n)) xs)"

definition count_lines :: "string \<Rightarrow> nat" where
  "count_lines content = (if content = [] then 0 else length (js_split_lines content))"

record index_acc =
  ia_files :: "SourceFileSummary list"
  ia_symbols :: "SymbolEntry list"
  ia_imports :: "ImportEntry list"
  ia_uses :: "UseEntry list"
  ia_languages :: "SupportedLanguage \<rightharpoonup> nat"

definition push_parsed :: "ParsedSourceFile \<Rightarrow> index_acc \<Rightarrow> index_acc" where
  "push_parsed parsed acc =
     acc\<lparr> ia_symbols := ia_symbols acc @ ps_symbols parsed,
          ia_imports := ia_imports acc @ ps_imports parsed,
          ia_uses := ia_uses acc @ ps_uses parsed \<rparr>"

text \<open>\<open>languages[language] = (languages[language] ?? 0) + 1\<close>\<close>

definition count_language ::
  "(SupportedLanguage \<rightharpoonup> nat) \<Rightarrow> SupportedLanguage \<Rightarrow> (SupportedLanguage \<rightharpoonup> nat)" where
  "count_language m language =
     m(language \<mapsto> (case m language of None \<Rightarrow> 0 | Some n \<Rightarrow> n) + 1)"

text \<open>The \<open>for\<close> loop of \<open>buildIndex\<close> over \<open>filePaths\<close>.\<close>

fun buildIndex_loop ::
  "string \<Rightarrow> string \<Rightarrow> scan_env \<Rightarrow> string list \<Rightarrow> index_acc \<Rightarrow> error + index_acc" where
  "buildIndex_loop cwd root env [] acc = Inr acc"
| "buildIndex_loop cwd root env (filePath # rest) acc =
     (case resolveWorkspacePath (posix cwd) root filePath of
        Inl e \<Rightarrow> Inl e
      | Inr absolutePath \<Rightarrow>
     (case se_stat env absolutePath of
        None \<Rightarrow> buildIndex_loop cwd root env rest acc
      | Some (isFile, sizeBytes) \<Rightarrow>
     (if \<not> isFile then buildIndex_loop cwd root env rest acc
      else (let language = detectLanguage filePath;
                counted = count_language (ia_languages acc) language;
                content = (case se_readFile env absolutePath of None \<Rightarrow> [] | Some text \<Rightarrow> text);
                acc1 = acc\<lparr> ia_languages := counted,
                            ia_files := ia_files acc @
                              [\<lparr> sf_path = filePath, sf_language = language,
                                 sf_sizeBytes = sizeBytes, sf_lineCount = count_lines content \<rparr>] \<rparr>
            in if \<not> isLanguageIndexed language then buildIndex_loop cwd root env rest acc1
               else if sizeBytes > 1000000 then buildIndex_loop cwd root env rest acc1
               else if language = Typescript \<or> language = Javascript then
                 (case parseTsOrJsFile env filePath content language of
                    None \<Rightarrow> Inl (IOError ''parseTsOrJsFile'')
                  | Some parsed \<Rightarrow> buildIndex_loop cwd root env rest (push_parsed parsed acc1))
               else if language = Python then
                 (case parsePythonFile env filePath content of
                    None \<Rightarrow> Inl (IOError ''parsePythonFile'')
                  | Some parsed \<Rightarrow> buildIndex_loop cwd root env rest (push_parsed parsed acc1))
               else buildIndex_loop cwd root env rest acc1))))"

definition buildIndex ::
  "string \<Rightarrow> string \<Rightarrow> scan_env \<Rightarrow> int \<Rightarrow> int option \<Rightarrow> error + ProjectIndex" where
  "buildIndex cwd root env maxFilesDefault maxFilesOverride =
     (let maxFiles = limitValue maxFilesOverride maxFilesDefault;
          entries = listFiles (se_localeCompare env) (se_tree env) True 16 (maxFiles * 2);
          filePaths = js_slice_to maxFiles
                        (sort_by (se_localeCompare env)
                           (filter (\<lambda>entry. \<not> suffix ''/'' entry) entries))
      in case buildIndex_loop cwd root env filePaths
                \<lparr> ia_files = [], ia_symbols = [], ia_imports = [], ia_uses = [],
                  ia_languages = Map.empty \<rparr> of
           Inl e \<Rightarrow> Inl e
         | Inr acc \<Rightarrow>
             (case se_dependencies env of
                None \<Rightarrow> Inl (IOError ''buildDependencyMap'')
              | Some dependencies \<Rightarrow>
                  Inr \<lparr> pi_workspaceRoot = root,
                        totalFilesScanned = length (ia_files acc),
                        languages = ia_languages acc,
                        pi_files = ia_files acc,
                        pi_symbols = ia_symbols acc,
                        pi_imports = ia_imports acc,
                        pi_uses = ia_uses acc,
                        pi_dependencies = dependencies \<rparr>))"

text \<open>The sum of the counts of a \<open>languages\<close> map.\<close>

definition language_total :: "(SupportedLanguage \<rightharpoonup> nat) \<Rightarrow> nat" where
  "language_total m = (\<Sum>language \<in> dom m. the (m language))"

definition listed_paths :: "SourceFileSummary list \<Rightarrow> string set" where
  "listed_paths fs = sf_path ` set fs"

definition acc_invariant :: "index_acc \<Rightarrow> bool" where
  "acc_invariant acc =
     ((\<forall>s \<in> set (ia_symbols acc). sym_path s \<in> listed_paths (ia_files acc))
      \<and> (\<forall>i \<in> set (ia_imports acc). imp_path i \<in> listed_paths (ia_files acc))
      \<and> (\<forall>u \<in> set (ia_uses acc). use_path u \<in> listed_paths (ia_files acc))
      \<and> language_total (ia_languages acc) = length (ia_files acc))"

section \<open>Orchestrator loop (agent/codingAgent.ts, \<open>runTask\<close>)\<close>

text \<open>
  What one pass of the loop awaits from outside: the settled \<open>client.complete\<close> (\<open>None\<close>
  when it rejects), the exception of \<open>applyMemoryUpdates\<close> if it throws, the environment of
  each action by its index, the memory snapshot read before the discovery of verify
  commands, the settled \<open>runShellCommand\<close> of each verify command, the answer to the
  question asked at the repair limit, and the answer of \<open>ui.ask\<close> (\<open>None\<close> when it rejects).
\<close>

record loop_env =
  le_complete :: "string option"
  le_memoryUpdate :: "error option"
  le_actions :: "nat \<Rightarrow> action_env"
  le_latestMemory :: ProjectMemory
  le_verify :: "string \<Rightarrow> string + CommandResult"
  le_keepTrying :: bool
  le_answer :: "string option"

text \<open>
  What the task awaits from outside: the runtime's \<open>RegExp\<close> and \<open>JSON.parse\<close>, the working
  directory, the exception of what is awaited before the loop (memory store, policy file,
  workspace summary) if any, the loaded policy, the environment of each pass by its number,
  and the answer to the rollback question.
\<close>

record task_env =
  te_RegExp :: regexp_engine
  te_JSON_parse :: "string \<Rightarrow> json option"
  te_cwd :: string
  te_setup :: "error option"
  te_policy :: AgentPolicy
  te_loops :: "nat \<Rightarrow> loop_env"
  te_shouldRollback :: bool

text \<open>
  The variables of \<open>runTask\<close>, with the files, the tracker and the audit entries of the
  actions; \<open>verifyResults\<close> are the \<open>verify_result\<close> audit events (command and \<open>ok\<close>),
  \<open>repairPrompts\<close> counts the \<open>auto_repair_limit_reached\<close> events, \<open>rollbackAsked\<close> says that
  the rollback question was put, and \<open>restoredFiles\<close> is what \<open>rollback\<close> returned. The
  conversation, the other audit events and the messages printed are left out.
\<close>

record task_state =
  ts_world :: world
  hadVerifyFailures :: bool
  completed :: bool
  maxIterationReached :: bool
  abortedByError :: bool
  stoppedEarly :: bool
  consecutiveVerifyFailures :: nat
  verifyResults :: "(string \<times> bool) list"
  repairPrompts :: nat
  rollbackAsked :: bool
  restoredFiles :: "string list option"

definition initial_task_state :: "files \<Rightarrow> task_state" where
  "initial_task_state fs =
     \<lparr> ts_world = \<lparr> w_files = fs, w_tracker = new_tracker, w_audit = [] \<rparr>,
       hadVerifyFailures = False, completed = False, maxIterationReached = False,
       abortedByError = False, stoppedEarly = False, consecutiveVerifyFailures = 0,
       verifyResults = [], repairPrompts = 0, rollbackAsked = False, restoredFiles = None \<rparr>"

text \<open>The loop over \<open>modelResponse.actions\<close>; the second component is \<open>loopHadWrites\<close>.\<close>

fun run_actions ::
  "regexp_engine \<Rightarrow> string \<Rightarrow> RuntimeConfig \<Rightarrow> AgentPolicy \<Rightarrow> (nat \<Rightarrow> action_env) \<Rightarrow> nat
   \<Rightarrow> AgentAction list \<Rightarrow> world \<Rightarrow> bool \<Rightarrow> world \<times> bool" where
  "run_actions RegExp cwd config policy envs index [] w loopHadWrites = (w, loopHadWrites)"
| "run_actions RegExp cwd config policy envs index (action # rest) w loopHadWrites =
     (case executeAction RegExp cwd config policy (envs index) action w of
        (result, w') \<Rightarrow>
          run_actions RegExp cwd config policy envs (Suc index) rest w'
            (loopHadWrites \<or> (tool_of action = ''write_file'' \<and> ok result)))"

text \<open>The verify commands of one pass: those of the model, then the discovered ones not yet there.\<close>

definition loop_verify_commands ::
  "task_env \<Rightarrow> RuntimeConfig \<Rightarrow> loop_env \<Rightarrow> AgentModelResponse \<Rightarrow> world \<Rightarrow> bool \<Rightarrow> string list" where
  "loop_verify_commands te config le modelResponse w loopHadWrites =
     (let verifyCommands = verify modelResponse
      in if autoVerify config \<and> loopHadWrites
         then foldl (\<lambda>cmds cmd. if cmd \<in> set cmds then cmds else cmds @ [cmd])
                verifyCommands
                (discoverAutoVerifyCommands (te_JSON_parse te) (te_cwd te) (workspaceRoot config)
                   (w_files w) (le_latestMemory le) 8)
         else verifyCommands)"

text \<open>The loop over \<open>verifyCommands\<close>; the second component is \<open>loopVerifyFailed\<close>.\<close>

fun run_verify ::
  "regexp_engine \<Rightarrow> AgentPolicy \<Rightarrow> (string \<Rightarrow> string + CommandResult) \<Rightarrow> string list
   \<Rightarrow> task_state \<Rightarrow> bool \<Rightarrow> task_state \<times> bool" where
  "run_verify RegExp policy settled [] st loopVerifyFailed = (st, loopVerifyFailed)"
| "run_verify RegExp policy settled (cmd # rest) st loopVerifyFailed =
     (let result = runVerifyCommand RegExp policy (settled cmd) cmd;
          st1 = st\<lparr> verifyResults := verifyResults st @ [(cmd, ok result)] \<rparr>
      in if \<not> ok result
         then run_verify RegExp policy settled rest (st1\<lparr> hadVerifyFailures := True \<rparr>) True
         else run_verify RegExp policy settled rest st1 loopVerifyFailed)"

text \<open>The update of the counter after the verify commands of a pass.\<close>

definition count_verify_round :: "nat \<Rightarrow> string list \<Rightarrow> bool \<Rightarrow> nat" where
  "count_verify_round failures verifyCommands loopVerifyFailed =
     (if length verifyCommands > 0
      then (if loopVerifyFailed then failures + 1 else 0)
      else failures)"

datatype flow = Next | Break

text \<open>The end of a pass, from the test of the status \<open>need_user\<close> on.\<close>

definition loop_end :: "loop_env \<Rightarrow> AgentModelResponse \<Rightarrow> bool \<Rightarrow> task_state \<Rightarrow> task_state \<times> flow" where
  "loop_end le modelResponse loopVerifyFailed st =
     (if status modelResponse = NeedUser
      then (case le_answer le of
              None \<Rightarrow> (st\<lparr> abortedByError := True \<rparr>, Break)
            | Some answer \<Rightarrow> (st, Next))
      else if status modelResponse = Done
      then (if loopVerifyFailed then (st, Next) else (st\<lparr> completed := True \<rparr>, Break))
      else (st, Next))"

text \<open>
  One pass of the loop. An exception of \<open>parseAgentModelResponse\<close> or of
  \<open>applyMemoryUpdates\<close> is not caught and leaves \<open>runTask\<close>.
\<close>

definition loop_body :: "task_env \<Rightarrow> RuntimeConfig \<Rightarrow> loop_env \<Rightarrow> task_state \<Rightarrow> error + task_state \<times> flow" where
  "loop_body te config le st =
     (case le_complete le of
        None \<Rightarrow> Inr (st\<lparr> abortedByError := True \<rparr>, Break)
      | Some rawResponse \<Rightarrow>
     (case parseAgentModelResponse (te_JSON_parse te) rawResponse of
        Inl e \<Rightarrow> Inl e
      | Inr modelResponse \<Rightarrow>
     (case le_memoryUpdate le of
        Some e \<Rightarrow> Inl e
      | None \<Rightarrow>
     (case run_actions (te_RegExp te) (te_cwd te) config (te_policy te) (le_actions le) 0
             (actions modelResponse) (ts_world st) False of
        (w1, loopHadWrites) \<Rightarrow>
     (let verifyCommands = loop_verify_commands te config le modelResponse w1 loopHadWrites
      in case run_verify (te_RegExp te) (te_policy te) (le_verify le) verifyCommands
                (st\<lparr> ts_world := w1 \<rparr>) False of
        (st1, loopVerifyFailed) \<Rightarrow>
     (let st2 = st1\<lparr> consecutiveVerifyFailures :=
                       count_verify_round (consecutiveVerifyFailures st1) verifyCommands
                         loopVerifyFailed \<rparr>
      in if consecutiveVerifyFailures st2 \<ge> autoRepairMaxRounds config
            \<and> hasChanges (w_tracker (ts_world st2))
         then (let st3 = st2\<lparr> repairPrompts := repairPrompts st2 + 1 \<rparr>
               in if \<not> le_keepTrying le then Inr (st3\<lparr> stoppedEarly := True \<rparr>, Break)
                  else Inr (loop_end le modelResponse loopVerifyFailed
                              (st3\<lparr> consecutiveVerifyFailures := 0 \<rparr>)))
         else Inr (loop_end le modelResponse loopVerifyFailed st2)))))))"

text \<open>The \<open>for\<close> loop from pass \<open>loop\<close> on, with \<open>remaining\<close> passes to go.\<close>

fun run_loop :: "task_env \<Rightarrow> RuntimeConfig \<Rightarrow> nat \<Rightarrow> nat \<Rightarrow> task_state \<Rightarrow> error + task_state" where
  "run_loop te config loop 0 st = Inr st"
| "run_loop te config loop (Suc remaining) st =
     (case loop_body te config (te_loops te loop) st of
        Inl e \<Rightarrow> Inl e
      | Inr (st', Break) \<Rightarrow> Inr st'
      | Inr (st', Next) \<Rightarrow> run_loop te config (Suc loop) remaining st')"

text \<open>What follows the loop: the flag of the iteration limit and the rollback question.\<close>

definition after_loop :: "task_env \<Rightarrow> RuntimeConfig \<Rightarrow> task_state \<Rightarrow> error + task_state" where
  "after_loop te config st =
     (let st1 = (if \<not> completed st \<and> \<not> abortedByError st \<and> \<not> stoppedEarly st
                 then st\<lparr> maxIterationReached := True \<rparr> else st)
      in if \<not> completed st1 \<and> hadVerifyFailures st1 \<and> hasChanges (w_tracker (ts_world st1))
         then (let st2 = st1\<lparr> rollbackAsked := True \<rparr>
               in if te_shouldRollback te
                  then (case rollback (te_cwd te) (workspaceRoot config)
                               (w_tracker (ts_world st2)) (w_files (ts_world st2)) of
                          (Inl e, fs') \<Rightarrow> Inl e
                        | (Inr restored, fs') \<Rightarrow>
                            Inr (st2\<lparr> ts_world := (ts_world st2)\<lparr> w_files := fs' \<rparr>,
                                      restoredFiles := Some restored \<rparr>))
                  else Inr st2)
         else Inr st1)"

definition runTask :: "task_env \<Rightarrow> RuntimeConfig \<Rightarrow> files \<Rightarrow> error + task_state" where
  "runTask te config fs =
     (if apiKey config = [] then Inr (initial_task_state fs)
      else case te_setup te of
        Some e \<Rightarrow> Inl e
      | None \<Rightarrow>
          (case run_loop te config 1 (maxIterations config) (initial_task_state fs) of
             Inl e \<Rightarrow> Inl e
           | Inr st \<Rightarrow> after_loop te config st))"

text \<open>The results of the verify commands of a pass, and whether one of a list of results failed.\<close>

definition verify_outcomes ::
  "regexp_engine \<Rightarrow> AgentPolicy \<Rightarrow> (string \<Rightarrow> string + CommandResult) \<Rightarrow> string list
   \<Rightarrow> (string \<times> bool) list" where
  "verify_outcomes RegExp policy settled cmds =
     map (\<lambda>cmd. (cmd, ok (runVerifyCommand RegExp policy (settled cmd) cmd))) cmds"

definition some_failed :: "(string \<times> bool) list \<Rightarrow> bool" where
  "some_failed results = list_ex (\<lambda>r. \<not> snd r) results"

definition task_invariant :: "task_state \<Rightarrow> bool" where
  "task_invariant st =
     (hadVerifyFailures st = some_failed (verifyResults st) \<and> \<not> rollbackAsked st)"

section \<open>Concrete inputs\<close>

text \<open>
  A policy that allows everything and names no pattern, a regular-expression engine that
  rejects every source text (no expression is constructed with this policy), and a
  configuration.
\<close>

definition sample_policy :: AgentPolicy where
  "sample_policy =
     \<lparr> allowRunCommand = True, allowWrite = True, allowedCommandPrefixes = [],
       blockedCommandPatterns = [], blockedWriteGlobs = [], allowPotentialSecrets = False \<rparr>"

definition no_regexp :: regexp_engine where
  "no_regexp source flags = None"

definition sample_config :: RuntimeConfig where
  "sample_config =
     \<lparr> workspaceRoot = ''/w'', apiKey = ''key'', maxIterations = 6, maxToolOutputChars = 3,
       autoRepairMaxRounds = 3, autoVerify = False \<rparr>"

text \<open>
  \<open>JSON.parse\<close> on the three texts the examples use: a response whose plan holds an object
  with a \<open>toString\<close> property, and a \<open>package.json\<close> with the scripts \<open>test\<close> and \<open>lint\<close>.
\<close>

definition sample_JSON_parse :: "string \<Rightarrow> json option" where
  "sample_JSON_parse text =
     (if text = ''{\"plan\":[{\"toString\":1}]}''
      then Some (JObj [(''plan'', JArr [JObj [(''toString'', JNum (JSNum True False ''1''))]])])
      else if text = ''{\"scripts\":{\"test\":\"vitest run\",\"lint\":\"eslint .\"}}''
      then Some (JObj [(''scripts'', JObj [(''test'', JStr ''vitest run''),
                                            (''lint'', JStr ''eslint .'')])])
      else None)"

definition sample_memory :: "string list \<Rightarrow> ProjectMemory" where
  "sample_memory commands =
     \<lparr> projectRules = [], architectureNotes = [], commonCommands = commands, kv = [],
       updatedAt = [] \<rparr>"

definition sample_package_files :: files where
  "sample_package_files =
     [''/w/package.json'' \<mapsto> ''{\"scripts\":{\"test\":\"vitest run\",\"lint\":\"eslint .\"}}'']"

text \<open>
  A workspace searched without ripgrep. Every file can be read and holds the text \<open>TODO\<close>:
  two files at the root, an image, a file in \<open>node_modules\<close>, and files below one, eight and
  nine directories. A comparison of names by code unit stands for \<open>localeCompare\<close>, and the
  pattern is matched as a substring.
\<close>

fun compare_codes :: "string \<Rightarrow> string \<Rightarrow> int" where
  "compare_codes [] [] = 0"
| "compare_codes [] (b # bs) = -1"
| "compare_codes (a # as) [] = 1"
| "compare_codes (a # as) (b # bs) =
     (if (of_char a :: nat) < of_char b then -1
      else if (of_char b :: nat) < of_char a then 1
      else compare_codes as bs)"

definition sample_readFile :: "string \<Rightarrow> string option" where
  "sample_readFile absolute =
     (if absolute = ''/w/a.md'' then Some (''TODO: write the guide'' @ [CHR 0x0A] @ ''done'')
      else if absolute = ''/w/b.ts'' then Some ''// TODO remove''
      else Some ''TODO'')"

definition sample_entries :: "(string \<times> fsnode) list" where
  "sample_entries =
     [(''logo.png'', FileNode), (''b.ts'', FileNode), (''a.md'', FileNode),
      (''node_modules'', DirNode [(''m.md'', FileNode)]),
      (''d1'', DirNode [(''n.md'', FileNode),
         (''d2'', DirNode [(''d3'', DirNode [(''d4'', DirNode [(''d5'', DirNode [(''d6'',
            DirNode [(''d7'', DirNode [(''d8'', DirNode [(''e.md'', FileNode),
              (''d9'', DirNode [(''deep.md'', FileNode)])])])])])])])])])]"

definition sample_grep_env :: grep_env where
  "sample_grep_env =
     \<lparr> ge_hasRipgrep = False,
       ge_ripgrep = (\<lambda>pattern glob maxMatches. None),
       ge_tree = DirNode sample_entries,
       ge_readFile = sample_readFile,
       ge_localeCompare = compare_codes,
       ge_RegExp = no_regexp \<rparr>"

text \<open>
  A workspace of three files: \<open>stat\<close> finds each a regular file of twelve bytes, the
  TypeScript adapter extracts one symbol, the Python adapter one import and one use.
\<close>

definition sample_scan_env :: scan_env where
  "sample_scan_env =
     \<lparr> se_tree = DirNode [(''b.ts'', FileNode), (''a.md'', FileNode),
                          (''src'', DirNode [(''c.py'', FileNode)])],
       se_localeCompare = compare_codes,
       se_stat = (\<lambda>absolute. Some (True, 12)),
       se_readFile = (\<lambda>absolute. Some ''x = 1''),
       se_tsJs = (\<lambda>filePath content language.
          Some \<lparr> ps_symbols = [\<lparr> sym_name = ''x'', sym_kind = ''variable'', sym_path = filePath,
                                   sym_line = 1, sym_language = language, sym_exported = False \<rparr>],
                 ps_imports = [], ps_uses = [] \<rparr>),
       se_python = (\<lambda>filePath content.
          Some \<lparr> ps_symbols = [],
                 ps_imports = [\<lparr> imp_path = filePath, imp_line = 1, imp_language = Python,
                                   imp_source = ''os'', imp_imported = [] \<rparr>],
                 ps_uses = [\<lparr> use_name = ''os'', use_path = filePath, use_line = 2,
                                use_language = Python \<rparr>] \<rparr>),
       se_dependencies = Some \<lparr> dep_node = [], dep_nodeDev = [], dep_python = [],
                                 dep_pythonDev = [] \<rparr> \<rparr>"

text \<open>An environment that approves every write, and a sequence of writes one after another.\<close>

definition approving :: action_env where
  "approving = \<lparr> ae_approve = True, ae_run = Inl [], ae_other = None \<rparr>"

definition write_all :: "(string \<times> string) list \<Rightarrow> world \<Rightarrow> world" where
  "write_all ws w =
     foldl (\<lambda>w (path, content).
              snd (executeAction no_regexp ''/'' sample_config sample_policy approving
                     (WriteFile path content) w)) w ws"

text \<open>A win32 process on drive \<open>C:\<close>, with the lower-casing of the code units below 256.\<close>

definition sample_win32 :: process where
  "sample_win32 =
     \<lparr> p_platform = Win32, p_cwd = to_backslashes ''C:/Users/u'',
       p_driveCwd = (\<lambda>device. None), p_toLowerCase = js_toLowerCase \<rparr>"

text \<open>
  Model responses for the runs below, with what \<open>JSON.parse\<close> makes of them: a write of the
  file \<open>n\<close> followed by the verify command \<open>npm test\<close>, the verify command alone, and the
  write alone; the response \<open>{}\<close> asks for nothing.
\<close>

definition write_and_verify_text :: string where
  "write_and_verify_text =
     ''{\"actions\":[{\"tool\":\"write_file\",\"path\":\"n\",\"content\":\"a\"}],\"verify\":[{\"command\":\"npm test\"}]}''"

definition verify_text :: string where
  "verify_text = ''{\"verify\":[{\"command\":\"npm test\"}]}''"

definition write_text :: string where
  "write_text = ''{\"actions\":[{\"tool\":\"write_file\",\"path\":\"n\",\"content\":\"a\"}]}''"

definition write_item :: json where
  "write_item =
     JObj [(''tool'', JStr ''write_file''), (''path'', JStr ''n''), (''content'', JStr ''a'')]"

definition task_JSON_parse :: "string \<Rightarrow> json option" where
  "task_JSON_parse text =
     (if text = write_and_verify_text
      then Some (JObj [(''actions'', JArr [write_item]),
                       (''verify'', JArr [JObj [(''command'', JStr ''npm test'')]])])
      else if text = verify_text
      then Some (JObj [(''verify'', JArr [JObj [(''command'', JStr ''npm test'')]])])
      else if text = write_text
      then Some (JObj [(''actions'', JArr [write_item])])
      else if text = ''{}'' then Some (JObj [])
      else None)"

text \<open>
  A pass that gets the response \<open>raw\<close> (none when the model call fails), in which every write
  is approved, every verify command exits with code 1, and the user answers \<open>keep\<close> at the
  repair limit. The configuration is the default one: verify commands are discovered after
  a write (here none is found), and the repair limit is 3.
\<close>

definition task_config :: RuntimeConfig where
  "task_config = sample_config\<lparr> autoVerify := True \<rparr>"

definition sample_loop :: "bool \<Rightarrow> string option \<Rightarrow> loop_env" where
  "sample_loop keep raw =
     \<lparr> le_complete = raw, le_memoryUpdate = None, le_actions = (\<lambda>index. approving),
       le_latestMemory = sample_memory [],
       le_verify = (\<lambda>cmd. Inr \<lparr> command = cmd, exitCode = Some 1, timedOut = False,
                                 stdout = [], stderr = [] \<rparr>),
       le_keepTrying = keep, le_answer = None \<rparr>"

definition sample_task :: "bool \<Rightarrow> (nat \<Rightarrow> string option) \<Rightarrow> task_env" where
  "sample_task keep responses =
     \<lparr> te_RegExp = no_regexp, te_JSON_parse = task_JSON_parse, te_cwd = ''/'',
       te_setup = None, te_policy = sample_policy,
       te_loops = (\<lambda>loop. sample_loop keep (responses loop)),
       te_shouldRollback = False \<rparr>"

text \<open>
  Three runs: a failing write-and-verify pass followed by a failing model call; three
  passes with the failing verify command alone followed by a pass with the write alone and
  a failing model call; and failing write-and-verify passes alternating with passes that
  do nothing.
\<close>

definition abort_after_failure :: "nat \<Rightarrow> string option" where
  "abort_after_failure loop = (if loop = 1 then Some write_and_verify_text else None)"

definition write_after_failures :: "nat \<Rightarrow> string option" where
  "write_after_failures loop =
     (if loop \<le> 3 then Some verify_text else if loop = 4 then Some write_text else None)"

definition failures_between_idle_passes :: "nat \<Rightarrow> string option" where
  "failures_between_idle_passes loop =
     (if loop \<in> {1, 3, 5} then Some write_and_verify_text else Some ''{}'')"

section \<open>Verified properties\<close>

subsection \<open>Path sandbox\<close>

lemma split_on_nonempty: "split_on c xs \<noteq> []"
  by (induction xs) (auto split: list.splits)

lemma split_on_no_sep: "s \<in> set (split_on c xs) \<Longrightarrow> c \<notin> set s"
  by (induction xs arbitrary: s) (auto split: list.splits if_splits)

lemma split_on_append_sep:
  "c \<notin> set s \<Longrightarrow> split_on c (s @ c # rest) = s # split_on c rest"
  by (induction s) (auto simp: split_on_nonempty split: list.splits)

lemma normalizeSegments_skip:
  "s = [] \<or> s = ''.'' \<Longrightarrow> normalizeSegments res (s # ss) = normalizeSegments res ss"
  by (simp only: normalizeSegments.simps if_True simp_thms)

lemma normalizeSegments_push:
  "\<not> (s = [] \<or> s = ''.'') \<Longrightarrow> s \<noteq> ''..'' \<Longrightarrow>
   normalizeSegments res (s # ss) = normalizeSegments (s # res) ss"
  by (simp only: normalizeSegments.simps if_True if_False simp_thms)

lemma normalizeSegments_up:
  "\<not> (s = [] \<or> s = ''.'') \<Longrightarrow> s = ''..'' \<Longrightarrow>
   normalizeSegments res (s # ss) = normalizeSegments (tl res) ss"
  by (cases res) (simp_all only: normalizeSegments.simps if_True if_False simp_thms list.case list.sel)

lemma good_segment_push:
  "good_segment s \<Longrightarrow> normalizeSegments res (s # ss) = normalizeSegments (s # res) ss"
  unfolding good_segment_def by (rule normalizeSegments_push) blast+

declare normalizeSegments.simps(2) [simp del]

lemma normalizeSegments_good:
  "\<lbrakk> \<forall>s \<in> set res. good_segment s; \<forall>s \<in> set ss. CHR ''/'' \<notin> set s \<rbrakk>
   \<Longrightarrow> \<forall>s \<in> set (normalizeSegments res ss). good_segment s"
proof (induction ss arbitrary: res)
  case Nil
  then show ?case by simp
next
  case (Cons s ss)
  have tail: "\<forall>s \<in> set ss. CHR ''/'' \<notin> set s" and hd: "CHR ''/'' \<notin> set s"
    using Cons.prems(2) by simp_all
  consider (skip) "s = [] \<or> s = ''.''" | (up) "\<not> (s = [] \<or> s = ''.'')" "s = ''..''"
    | (push) "\<not> (s = [] \<or> s = ''.'')" "s \<noteq> ''..''"
    by blast
  then show ?case
  proof cases
    case skip
    show ?thesis
      unfolding normalizeSegments_skip[OF skip] by (rule Cons.IH[OF Cons.prems(1) tail])
  next
    case up
    have "\<forall>s \<in> set (tl res). good_segment s"
      using Cons.prems(1) by (cases res) simp_all
    then show ?thesis
      unfolding normalizeSegments_up[OF up] by (rule Cons.IH[OF _ tail])
  next
    case push
    have "good_segment s"
      using push hd unfolding good_segment_def by blast
    then have "\<forall>x \<in> set (s # res). good_segment x"
      using Cons.prems(1) by simp
    then show ?thesis
      unfolding normalizeSegments_push[OF push] by (rule Cons.IH[OF _ tail])
  qed
qed

lemma resolved_segments_good: "\<forall>s \<in> set (resolved_segments cwd args). good_segment s"
  unfolding resolved_segments_def
  by (rule normalizeSegments_good) (auto dest: split_on_no_sep)

lemma normalizeSegments_append_good:
  "\<forall>s \<in> set segs. good_segment s \<Longrightarrow>
   normalizeSegments res (segs @ rest) = normalizeSegments (rev segs @ res) rest"
  by (induction segs arbitrary: res) (simp_all add: good_segment_push)

lemma split_on_terminated:
  "\<forall>s \<in> set segs. CHR ''/'' \<notin> set s \<Longrightarrow>
   split_on CHR ''/'' (concat (map (\<lambda>s. s @ ''/'') segs)) = segs @ [[]]"
  by (induction segs) (auto simp: split_on_append_sep)

lemma slash_shift:
  "concat (map ((#) CHR ''/'') segs) @ ''/'' = CHR ''/'' # concat (map (\<lambda>s. s @ ''/'') segs)"
  by (induction segs) auto

lemma render_path_head: "\<exists>t. render_path segs = CHR ''/'' # t"
  by (cases segs) (auto simp: render_path_def)

lemma resolved_segments_render:
  assumes "\<forall>s \<in> set segs. good_segment s"
  shows "resolved_segments cwd [render_path segs] = segs"
proof -
  obtain t where t: "render_path segs = CHR ''/'' # t" using render_path_head by blast
  have loop: "resolve_loop (rev [render_path segs] @ [cwd]) [] = render_path segs @ ''/''"
    by (simp add: t)
  have nosep: "\<forall>s \<in> set segs. CHR ''/'' \<notin> set s"
    using assms by (auto simp: good_segment_def)
  show ?thesis
  proof (cases "segs = []")
    case True
    then show ?thesis
      unfolding resolved_segments_def loop by (simp add: render_path_def normalizeSegments_skip)
  next
    case False
    then have "render_path segs @ ''/'' = CHR ''/'' # concat (map (\<lambda>s. s @ ''/'') segs)"
      by (simp add: render_path_def slash_shift)
    then have "split_on CHR ''/'' (render_path segs @ ''/'') = [] # segs @ [[]]"
      using split_on_terminated[OF nosep] by simp
    then show ?thesis
      unfolding resolved_segments_def loop
      using normalizeSegments_append_good[OF assms, of "[]" "[[]]"]
      by (simp add: normalizeSegments_skip)
  qed
qed

lemma resolved_segments_idem:
  "resolved_segments cwd [posix_resolve cwd args] = resolved_segments cwd args"
  unfolding posix_resolve_def
  by (simp add: resolved_segments_render resolved_segments_good)

lemma posix_resolve_idem: "posix_resolve cwd [posix_resolve cwd args] = posix_resolve cwd args"
  unfolding posix_resolve_def
  by (simp add: resolved_segments_render resolved_segments_good)

lemma seg_prefix_step:
  "\<lbrakk> CHR ''/'' \<notin> set r; CHR ''/'' \<notin> set c \<rbrakk> \<Longrightarrow>
   prefix (r @ CHR ''/'' # x) (c @ CHR ''/'' # y) \<longleftrightarrow> r = c \<and> prefix x y"
proof (induction r arbitrary: c)
  case Nil
  then show ?case by (cases c) auto
next
  case (Cons a r)
  then show ?case by (cases c) auto
qed

lemma terminated_prefix:
  "\<lbrakk> \<forall>s \<in> set rs. CHR ''/'' \<notin> set s; \<forall>s \<in> set cs. CHR ''/'' \<notin> set s \<rbrakk> \<Longrightarrow>
   prefix (concat (map (\<lambda>s. s @ ''/'') rs)) (concat (map (\<lambda>s. s @ ''/'') cs)) \<longleftrightarrow> prefix rs cs"
proof (induction rs arbitrary: cs)
  case Nil
  then show ?case by simp
next
  case (Cons r rs)
  show ?case
  proof (cases cs)
    case Nil
    then show ?thesis by simp
  next
    case (Cons c cs')
    with Cons.prems Cons.IH[of cs'] show ?thesis
      by (simp add: seg_prefix_step)
  qed
qed

lemma render_terminated:
  "render_path segs @ ''/'' = CHR ''/'' # (if segs = [] then ''/'' else concat (map (\<lambda>s. s @ ''/'') segs))"
  by (simp add: render_path_def slash_shift)

lemma suffix_single: "suffix [c] xs \<longleftrightarrow> (xs \<noteq> [] \<and> last xs = c)"
  by (cases xs rule: rev_cases) (auto simp: suffix_def)

lemma good_last_not_slash:
  assumes "segs \<noteq> []" "\<forall>s \<in> set segs. good_segment s"
  shows "\<not> suffix ''/'' (render_path segs)"
proof -
  obtain ys s where segs: "segs = ys @ [s]"
    using assms(1) by (cases segs rule: rev_cases) auto
  have s: "s \<noteq> []" "CHR ''/'' \<notin> set s"
    using assms(2) segs by (auto simp: good_segment_def)
  have "render_path segs = concat (map ((#) CHR ''/'') ys) @ CHR ''/'' # s"
    by (simp add: render_path_def segs)
  then have "last (render_path segs) = last s"
    using s(1) by simp
  moreover have "last s \<in> set s" using s(1) by simp
  ultimately have "last (render_path segs) \<noteq> CHR ''/''"
    using s(2) by metis
  then show ?thesis
    unfolding suffix_single by simp
qed

lemma sandbox_check_iff:
  assumes "\<forall>s \<in> set rs. good_segment s" "\<forall>s \<in> set cs. good_segment s"
  shows "(render_path cs = render_path rs \<or>
          prefix (if suffix ''/'' (render_path rs) then render_path rs else render_path rs @ ''/'')
                 (render_path cs))
         \<longleftrightarrow> prefix rs cs"
proof (cases "rs = []")
  case True
  then show ?thesis
    using render_path_head[of cs] by (auto simp: render_path_def)
next
  case False
  have nr: "\<forall>s \<in> set rs. CHR ''/'' \<notin> set s" and nc: "\<forall>s \<in> set cs. CHR ''/'' \<notin> set s"
    using assms by (auto simp: good_segment_def)
  have "(render_path cs = render_path rs \<or> prefix (render_path rs @ ''/'') (render_path cs))
        \<longleftrightarrow> prefix (render_path rs @ ''/'') (render_path cs @ ''/'')"
    by (auto simp: prefix_snoc)
  also have "\<dots> \<longleftrightarrow> prefix (concat (map (\<lambda>s. s @ ''/'') rs))
                          (if cs = [] then ''/'' else concat (map (\<lambda>s. s @ ''/'') cs))"
    using False by (simp add: render_terminated)
  also have "\<dots> \<longleftrightarrow> prefix rs cs"
  proof (cases "cs = []")
    case True
    obtain r rs' where "rs = r # rs'" using False by (cases rs) auto
    moreover have "r \<noteq> []" using assms(1) calculation by (auto simp: good_segment_def)
    ultimately show ?thesis using True by (cases r) (auto simp: prefix_Cons)
  next
    case False
    then show ?thesis using terminated_prefix[OF nr nc] by simp
  qed
  finally show ?thesis
    using good_last_not_slash[OF False assms(1)] by simp
qed

text \<open>On POSIX the comparison is the one of the resolved segments.\<close>

lemma split_on_rendered:
  assumes "segs \<noteq> []" "\<forall>s \<in> set segs. CHR ''/'' \<notin> set s"
  shows "split_on CHR ''/'' (concat (map ((#) CHR ''/'') segs)) = [] # segs"
  using assms
proof (induction segs)
  case Nil
  then show ?case by simp
next
  case (Cons s segs)
  show ?case
  proof (cases "segs = []")
    case True
    have "split_on CHR ''/'' s = [s]"
      using Cons.prems(2) by (induction s) (auto split: list.splits)
    then show ?thesis using True by simp
  next
    case False
    then have "split_on CHR ''/'' (concat (map ((#) CHR ''/'') segs)) = [] # segs"
      using Cons by simp
    moreover obtain t where "concat (map ((#) CHR ''/'') segs) = CHR ''/'' # t"
      using False by (cases segs) auto
    ultimately have "split_on CHR ''/'' (s @ concat (map ((#) CHR ''/'') segs)) = s # segs"
      using split_on_append_sep[of "CHR ''/''" s t] Cons.prems(2) by simp
    then show ?thesis by simp
  qed
qed

lemma path_segments_rendered:
  assumes "\<forall>s \<in> set segs. good_segment s"
  shows "path_segments CHR ''/'' (render_path segs) = [] # segs"
proof (cases "segs = []")
  case True
  then show ?thesis by (simp add: path_segments_def render_path_def)
next
  case False
  have nosep: "\<forall>s \<in> set segs. CHR ''/'' \<notin> set s"
    using assms by (auto simp: good_segment_def)
  have "last segs \<noteq> []"
    using assms False by (auto simp: good_segment_def)
  then show ?thesis
    using False split_on_rendered[OF False nosep]
    by (simp add: path_segments_def render_path_def)
qed

lemma compared_segments_posix:
  "p_platform pr = Posix \<Longrightarrow>
   compared_segments pr v = [] # resolved_segments (p_cwd pr) [v]"
  by (simp add: compared_segments_def path_resolve_def path_sep_def posix_resolve_def
        path_segments_rendered resolved_segments_good)

lemma within_root_posix:
  "p_platform pr = Posix \<Longrightarrow>
   within_root pr root p \<longleftrightarrow>
     prefix (resolved_segments (p_cwd pr) [root]) (resolved_segments (p_cwd pr) [p])"
  by (simp add: within_root_def compared_segments_posix path_resolve_def resolved_segments_idem)

lemma resolveWorkspacePath_posix:
  assumes "p_platform pr = Posix"
  shows "resolveWorkspacePath pr root userPath =
     (if within_root pr root (path_resolve pr [path_resolve pr [root], userPath])
      then Inr (path_resolve pr [path_resolve pr [root], userPath])
      else Inl (PathEscape userPath))"
proof -
  let ?cwd = "p_cwd pr"
  let ?rs = "resolved_segments ?cwd [root]"
  let ?cs = "resolved_segments ?cwd [posix_resolve ?cwd [root], userPath]"
  have eq: "(render_path ?cs = render_path ?rs \<or>
          prefix (if suffix ''/'' (render_path ?rs) then render_path ?rs else render_path ?rs @ ''/'')
                 (render_path ?cs)) \<longleftrightarrow> prefix ?rs ?cs"
    by (rule sandbox_check_iff) (rule resolved_segments_good)+
  have within: "within_root pr root (posix_resolve ?cwd [posix_resolve ?cwd [root], userPath])
                \<longleftrightarrow> prefix ?rs ?cs"
    using assms by (simp add: within_root_posix resolved_segments_idem)
  have run: "resolveWorkspacePath pr root userPath =
      (if posix_resolve ?cwd [posix_resolve ?cwd [root], userPath] \<noteq> posix_resolve ?cwd [root]
          \<and> \<not> prefix (if suffix ''/'' (posix_resolve ?cwd [root])
                        then posix_resolve ?cwd [root] else posix_resolve ?cwd [root] @ ''/'')
                       (posix_resolve ?cwd [posix_resolve ?cwd [root], userPath])
       then Inl (PathEscape userPath)
       else Inr (posix_resolve ?cwd [posix_resolve ?cwd [root], userPath]))"
    using assms
    by (simp add: resolveWorkspacePath_def Let_def normalizeForComparison_def path_resolve_def
          path_sep_def posix_resolve_idem)
  have candidate: "path_resolve pr [path_resolve pr [root], userPath]
                   = posix_resolve ?cwd [posix_resolve ?cwd [root], userPath]"
    using assms by (simp add: path_resolve_def)
  show ?thesis
    unfolding candidate run within using eq unfolding posix_resolve_def by auto
qed

text \<open>
  On both platforms the check of \<open>resolveWorkspacePath\<close> lets through only a path whose
  compared segments begin with those of the root.
\<close>

lemma split_on_append:
  "split_on sep (a @ sep # b) = split_on sep a @ split_on sep b"
  by (induction a) (auto simp: split_on_nonempty split: list.splits)

lemma path_segments_prefix: "prefix (path_segments sep p) (split_on sep p)"
  by (simp add: path_segments_def Let_def prefixeq_butlast)

lemma path_segments_extend:
  "\<exists>more. path_segments sep (a @ sep # b) = split_on sep a @ more"
proof -
  have ne: "split_on sep b \<noteq> []" by (rule split_on_nonempty)
  show ?thesis
    by (cases "last (split_on sep b) = []")
       (auto simp: path_segments_def split_on_append ne butlast_append)
qed

lemma check_within:
  assumes "c = r \<or> prefix (if suffix [sep] r then r else r @ [sep]) c"
  shows "prefix (path_segments sep r) (path_segments sep c)"
proof (cases "c = r")
  case True
  then show ?thesis by simp
next
  case False
  show ?thesis
  proof (cases "suffix [sep] r")
    case True
    then obtain r0 where r: "r = r0 @ [sep]"
      by (auto simp: suffix_def)
    from assms False True obtain rest where c: "c = r0 @ sep # rest"
      by (auto simp: prefix_def r)
    have "path_segments sep r = split_on sep r0"
      using split_on_append[of sep r0 "[]"] by (simp add: path_segments_def r)
    then show ?thesis
      using path_segments_extend[of sep r0 rest] c by auto
  next
    case no: False
    from assms False no obtain rest where c: "c = r @ sep # rest"
      by (auto simp: prefix_def)
    obtain more where "path_segments sep c = split_on sep r @ more"
      using path_segments_extend[of sep r rest] c by auto
    then show ?thesis
      using path_segments_prefix[of sep r] by (metis prefix_order.trans prefixI)
  qed
qed

lemma compared_segments_normalized:
  "compared_segments pr v = path_segments (path_sep pr) (normalizeForComparison pr v)"
  by (cases "p_platform pr") (simp_all add: compared_segments_def normalizeForComparison_def)

lemma resolveWorkspacePath_cases:
  "resolveWorkspacePath pr root userPath = Inr (path_resolve pr [path_resolve pr [root], userPath])
   \<or> resolveWorkspacePath pr root userPath = Inl (PathEscape userPath)"
  by (simp add: resolveWorkspacePath_def Let_def)

lemma resolveWorkspacePath_within:
  assumes "resolveWorkspacePath pr root userPath = Inr resolved"
  shows "resolved = path_resolve pr [path_resolve pr [root], userPath]
         \<and> within_root pr root resolved"
proof -
  let ?candidate = "path_resolve pr [path_resolve pr [root], userPath]"
  let ?r = "normalizeForComparison pr (path_resolve pr [root])"
  let ?c = "normalizeForComparison pr ?candidate"
  from assms have resolved: "resolved = ?candidate"
    and check: "?c = ?r \<or> prefix (if suffix [path_sep pr] ?r then ?r else ?r @ [path_sep pr]) ?c"
    by (auto simp: resolveWorkspacePath_def Let_def split: if_splits)
  from check_within[OF check] show ?thesis
    unfolding resolved within_root_def compared_segments_normalized by simp
qed

text \<open>
  An absolute path resolved on win32 has no empty segment, no \<open>.\<close> and no \<open>..\<close>, and its
  segments hold no separator.
\<close>

lemma split_on_chars: "s \<in> set (split_on c xs) \<Longrightarrow> set s \<subseteq> set xs"
proof (induction xs arbitrary: s)
  case Nil
  then show ?case by simp
next
  case (Cons a xs)
  obtain t ts where split: "split_on c xs = t # ts"
    using split_on_nonempty[of c xs] by (cases "split_on c xs") auto
  have t: "set t \<subseteq> set xs" and ts: "\<forall>u \<in> set ts. set u \<subseteq> set xs"
    using Cons.IH split by auto
  show ?case
  proof (cases "a = c")
    case True
    with Cons.prems split t ts show ?thesis by auto
  next
    case False
    with Cons.prems split have "s = a # t \<or> s \<in> set ts" by simp
    with t ts show ?thesis by auto
  qed
qed

lemma normalizeSegments_subset:
  "set (normalizeSegments res ss) \<subseteq> set res \<union> set ss"
proof (induction ss arbitrary: res)
  case Nil
  show ?case by simp
next
  case (Cons s ss)
  consider (skip) "s = [] \<or> s = ''.''" | (up) "\<not> (s = [] \<or> s = ''.'')" "s = ''..''"
    | (push) "\<not> (s = [] \<or> s = ''.'')" "s \<noteq> ''..''"
    by blast
  then show ?case
  proof cases
    case skip
    show ?thesis
      unfolding normalizeSegments_skip[OF skip] using Cons.IH[of res] by auto
  next
    case up
    have "set (tl res) \<subseteq> set res" by (cases res) auto
    then show ?thesis
      unfolding normalizeSegments_up[OF up] using Cons.IH[of "tl res"] by auto
  next
    case push
    show ?thesis
      unfolding normalizeSegments_push[OF push] using Cons.IH[of "s # res"] by auto
  qed
qed

lemma win32_segments_good:
  assumes "resolvedAbsolute st"
  shows "\<forall>s \<in> set (win32_segments st). good_segment s \<and> backslash \<notin> set s"
proof -
  let ?parts = "split_on backslash (to_backslashes (resolvedTail st))"
  have noslash: "\<forall>s \<in> set ?parts. CHR ''/'' \<notin> set s"
  proof
    fix s assume "s \<in> set ?parts"
    then have "set s \<subseteq> set (to_backslashes (resolvedTail st))"
      by (rule split_on_chars)
    moreover have "CHR ''/'' \<notin> set (to_backslashes (resolvedTail st))"
      by (auto simp: to_backslashes_def backslash_def)
    ultimately show "CHR ''/'' \<notin> set s" by blast
  qed
  have good: "\<forall>s \<in> set (normalizeSegments [] ?parts). good_segment s"
    by (rule normalizeSegments_good) (use noslash in simp_all)
  have "\<forall>s \<in> set (normalizeSegments [] ?parts). backslash \<notin> set s"
    using normalizeSegments_subset[of "[]" ?parts] split_on_no_sep[of _ backslash]
    by fastforce
  with good assms show ?thesis
    by (simp add: win32_segments_def)
qed

text \<open>
  C1 (sandbox soundness). On both platforms, for every process, workspace root and user
  path, \<open>resolveWorkspacePath\<close> either returns the resolved candidate or raises the
  path-escape error for that user path. A returned path is the resolved root or a
  descendant of it: the segments of the root are the first segments of the path, compared
  as they are on POSIX and in lower case on win32. So every path that resolves outside the
  root raises the error. On POSIX the error is raised for such paths only.
\<close>

theorem resolveWorkspacePath_sandbox_sound:
  "(case resolveWorkspacePath pr root userPath of
      Inr resolved \<Rightarrow>
        resolved = path_resolve pr [path_resolve pr [root], userPath]
        \<and> within_root pr root resolved
    | Inl e \<Rightarrow> e = PathEscape userPath)
   \<and> (\<not> within_root pr root (path_resolve pr [path_resolve pr [root], userPath])
        \<longrightarrow> resolveWorkspacePath pr root userPath = Inl (PathEscape userPath))
   \<and> (p_platform pr = Posix \<longrightarrow>
        (resolveWorkspacePath pr root userPath = Inl (PathEscape userPath))
        = (\<not> within_root pr root (path_resolve pr [path_resolve pr [root], userPath])))"
proof (intro conjI impI)
  show "case resolveWorkspacePath pr root userPath of
      Inr resolved \<Rightarrow>
        resolved = path_resolve pr [path_resolve pr [root], userPath]
        \<and> within_root pr root resolved
    | Inl e \<Rightarrow> e = PathEscape userPath"
    using resolveWorkspacePath_cases[of pr root userPath]
          resolveWorkspacePath_within[of pr root userPath]
    by (auto split: sum.splits)
next
  assume "\<not> within_root pr root (path_resolve pr [path_resolve pr [root], userPath])"
  then show "resolveWorkspacePath pr root userPath = Inl (PathEscape userPath)"
    using resolveWorkspacePath_cases[of pr root userPath]
          resolveWorkspacePath_within[of pr root userPath]
    by auto
next
  assume "p_platform pr = Posix"
  then show "(resolveWorkspacePath pr root userPath = Inl (PathEscape userPath))
        = (\<not> within_root pr root (path_resolve pr [path_resolve pr [root], userPath]))"
    by (simp add: resolveWorkspacePath_posix)
qed

text \<open>
  On win32, with the workspace \<open>C:\Work\<close>: a path that differs from the root in letter
  case only is inside; the Windows directory, another drive and a network share are
  outside.
\<close>

theorem resolveWorkspacePath_sandbox_sound_witness:
  "resolveWorkspacePath sample_win32 (to_backslashes ''C:/Work'') (to_backslashes ''../WORK/src/a.ts'')
     = Inr (to_backslashes ''C:/WORK/src/a.ts'')
   \<and> within_root sample_win32 (to_backslashes ''C:/Work'') (to_backslashes ''C:/WORK/src/a.ts'')
   \<and> resolveWorkspacePath sample_win32 (to_backslashes ''C:/Work'') (to_backslashes ''../Windows/win.ini'')
     = Inl (PathEscape (to_backslashes ''../Windows/win.ini''))"
proof -
  let ?root = "to_backslashes ''C:/Work''"
  have inside: "resolveWorkspacePath sample_win32 ?root (to_backslashes ''../WORK/src/a.ts'')
                  = Inr (to_backslashes ''C:/WORK/src/a.ts'')"
    by code_simp
  have outside: "\<not> within_root sample_win32 ?root
                     (path_resolve sample_win32
                        [path_resolve sample_win32 [?root], to_backslashes ''../Windows/win.ini''])"
    by code_simp
  from resolveWorkspacePath_sandbox_sound[where pr = sample_win32 and root = ?root
         and userPath = "to_backslashes ''../WORK/src/a.ts''"]
       inside
  have "within_root sample_win32 ?root (to_backslashes ''C:/WORK/src/a.ts'')"
    by simp
  moreover
  from resolveWorkspacePath_sandbox_sound[where pr = sample_win32 and root = ?root
         and userPath = "to_backslashes ''../Windows/win.ini''"]
       outside
  have "resolveWorkspacePath sample_win32 ?root (to_backslashes ''../Windows/win.ini'')
          = Inl (PathEscape (to_backslashes ''../Windows/win.ini''))"
    by blast
  ultimately show ?thesis
    using inside by blast
qed

lemma sandbox_escape_example:
  "resolveWorkspacePath (posix ''/home/u'') ''/w/s'' ''../etc/passwd''
     = Inl (PathEscape ''../etc/passwd'')"
  by code_simp

lemma sandbox_win32_examples:
  "resolveWorkspacePath sample_win32 (to_backslashes ''C:/Work'') (to_backslashes ''src/../a.ts'')
     = Inr (to_backslashes ''C:/Work/a.ts'')"
  "resolveWorkspacePath sample_win32 (to_backslashes ''C:/Work'') ''src/lib/a.ts''
     = Inr (to_backslashes ''C:/Work/src/lib/a.ts'')"
  "resolveWorkspacePath sample_win32 (to_backslashes ''C:/Work'') (to_backslashes ''D:/a.ts'')
     = Inl (PathEscape (to_backslashes ''D:/a.ts''))"
  "resolveWorkspacePath sample_win32 (to_backslashes ''C:/Work'') (to_backslashes ''//server/share/a.ts'')
     = Inl (PathEscape (to_backslashes ''//server/share/a.ts''))"
  "resolveWorkspacePath sample_win32 (to_backslashes ''C:/Work'') (to_backslashes ''../Workspace/a.ts'')
     = Inl (PathEscape (to_backslashes ''../Workspace/a.ts''))"
  by code_simp+

subsection \<open>Shell runner\<close>

lemma appendCapped_take:
  "0 \<le> cap \<Longrightarrow> appendCapped (take (nat cap) xs) chunk cap = take (nat cap) (xs @ chunk)"
  by (auto simp: appendCapped_def Let_def min_def nat_diff_distrib)

lemma shell_unsettled_prefix:
  assumes "0 \<le> cap" "\<forall>e \<in> set pre. \<not> is_terminal e"
  shows "foldl (shell_step cmd cap) shell_init pre =
         \<lparr> sr_stdout = take (nat cap) (concat (map stdout_chunk pre)),
           sr_stderr = take (nat cap) (concat (map stderr_chunk pre)),
           sr_timedOut = (TimerFired \<in> set pre),
           sr_settled = False,
           sr_kills = (if TimerFired \<in> set pre then 1 else 0),
           sr_promise = None \<rparr>"
  using assms(2)
proof (induction pre rule: rev_induct)
  case Nil
  show ?case by (simp add: shell_init_def)
next
  case (snoc e pre)
  then show ?case
    by (cases e) (auto simp: appendCapped_take[OF assms(1)])
qed

lemma shell_settled_stays:
  "sr_settled s \<Longrightarrow>
   sr_promise (foldl (shell_step cmd cap) s evs) = sr_promise s \<and>
   sr_kills (foldl (shell_step cmd cap) s evs) = sr_kills s \<and>
   sr_settled (foldl (shell_step cmd cap) s evs)"
proof (induction evs arbitrary: s)
  case Nil
  then show ?case by simp
next
  case (Cons e evs)
  have "sr_settled (shell_step cmd cap s e) \<and> sr_promise (shell_step cmd cap s e) = sr_promise s
        \<and> sr_kills (shell_step cmd cap s e) = sr_kills s"
    using Cons.prems by (cases e) auto
  with Cons.IH[of "shell_step cmd cap s e"] show ?case by simp
qed

lemma shell_close_result:
  assumes "0 \<le> cap" "\<forall>e \<in> set pre. \<not> is_terminal e"
  shows "runShellCommand cmd cap (pre @ CloseEvent code # post) =
           Some (Inr \<lparr> command = cmd, exitCode = code, timedOut = (TimerFired \<in> set pre),
                       stdout = take (nat cap) (concat (map stdout_chunk pre)),
                       stderr = take (nat cap) (concat (map stderr_chunk pre)) \<rparr>)"
    and "sr_kills (shell_run_events cmd cap (pre @ CloseEvent code # post)) =
           (if TimerFired \<in> set pre then 1 else 0)"
proof -
  let ?s = "shell_step cmd cap (foldl (shell_step cmd cap) shell_init pre) (CloseEvent code)"
  have settled: "sr_settled ?s"
    by (simp add: shell_unsettled_prefix[OF assms])
  have run: "shell_run_events cmd cap (pre @ CloseEvent code # post) = foldl (shell_step cmd cap) ?s post"
    by (simp add: shell_run_events_def)
  show "runShellCommand cmd cap (pre @ CloseEvent code # post) =
           Some (Inr \<lparr> command = cmd, exitCode = code, timedOut = (TimerFired \<in> set pre),
                       stdout = take (nat cap) (concat (map stdout_chunk pre)),
                       stderr = take (nat cap) (concat (map stderr_chunk pre)) \<rparr>)"
    unfolding runShellCommand_def run
    using shell_settled_stays[OF settled, of cmd cap post]
    by (simp add: shell_unsettled_prefix[OF assms])
  show "sr_kills (shell_run_events cmd cap (pre @ CloseEvent code # post)) =
           (if TimerFired \<in> set pre then 1 else 0)"
    unfolding run
    using shell_settled_stays[OF settled, of cmd cap post]
    by (simp add: shell_unsettled_prefix[OF assms])
qed

lemma run_command_ok:
  "allowed (isCommandAllowed RegExp policy cmd) \<Longrightarrow> ae_run env = Inr run \<Longrightarrow>
   ok (fst (executeAction RegExp cwd config policy env (RunCommand cmd) w))
     = (exitCode run = Some 0 \<and> \<not> timedOut run)"
  by (simp add: executeAction_def run_command_case_def Let_def)

lemma verify_command_ok:
  "allowed (isCommandAllowed RegExp policy cmd) \<Longrightarrow>
   ok (runVerifyCommand RegExp policy (Inr run) cmd) = (exitCode run = Some 0 \<and> \<not> timedOut run)"
  by (simp add: runVerifyCommand_def Let_def)

text \<open>
  C8 (shell runner). Let the child deliver the events \<open>pre\<close>, none of them \<open>close\<close> or
  \<open>error\<close>, and then \<open>close\<close> with exit code \<open>code\<close>, with a cap that is not negative. Then
  the promise resolves with a result whose \<open>stdout\<close> is the first \<open>maxOutputChars\<close> code
  units of all stdout data and whose \<open>stderr\<close> is the first \<open>maxOutputChars\<close> code units of
  all stderr data: each buffer is capped on its own, what exceeds the cap on one stream
  is dropped whatever the other stream carries. \<open>child.kill()\<close> is called once if the
  timer fired and never otherwise, so not for output beyond the cap; \<open>timedOut\<close> records
  the timer. A \<open>run_command\<close> action that policy allows and a verify command that policy
  allows are reported \<open>ok\<close> exactly when the exit code is 0 and \<open>timedOut\<close> is false.
\<close>

theorem shell_runner_caps_and_success:
  assumes "0 \<le> maxOutputChars" and "\<forall>e \<in> set pre. \<not> is_terminal e"
  shows "(let run = \<lparr> command = cmd, exitCode = code, timedOut = (TimerFired \<in> set pre),
                      stdout = take (nat maxOutputChars) (concat (map stdout_chunk pre)),
                      stderr = take (nat maxOutputChars) (concat (map stderr_chunk pre)) \<rparr>
          in runShellCommand cmd maxOutputChars (pre @ CloseEvent code # post) = Some (Inr run)
             \<and> int (length (stdout run)) \<le> maxOutputChars
             \<and> int (length (stderr run)) \<le> maxOutputChars
             \<and> sr_kills (shell_run_events cmd maxOutputChars (pre @ CloseEvent code # post))
                 = (if TimerFired \<in> set pre then 1 else 0)
             \<and> (allowed (isCommandAllowed RegExp policy cmd) \<and> ae_run env = Inr run \<longrightarrow>
                  ok (fst (executeAction RegExp cwd config policy env (RunCommand cmd) w))
                    = (code = Some 0 \<and> TimerFired \<notin> set pre))
             \<and> (allowed (isCommandAllowed RegExp policy cmd) \<longrightarrow>
                  ok (runVerifyCommand RegExp policy (Inr run) cmd)
                    = (code = Some 0 \<and> TimerFired \<notin> set pre)))"
proof -
  have "int (min (n::nat) (nat maxOutputChars)) \<le> maxOutputChars" for n
    using assms(1) by arith
  then show ?thesis
    using shell_close_result[OF assms, of cmd code post]
    by (simp add: Let_def run_command_ok verify_command_ok)
qed

text \<open>
  The theorem at a run with a cap of 3: four code units arrive on stdout, two on stderr
  and one more on stdout; the command exits with code 0 and is allowed by a policy
  without patterns.
\<close>

theorem shell_runner_caps_and_success_witness:
  "runShellCommand ''ls'' 3 [StdoutData ''abcd'', StderrData ''xy'', StdoutData ''e'', CloseEvent (Some 0)]
     = Some (Inr \<lparr> command = ''ls'', exitCode = Some 0, timedOut = False,
                   stdout = ''abc'', stderr = ''xy'' \<rparr>)
   \<and> sr_kills (shell_run_events ''ls'' 3
        [StdoutData ''abcd'', StderrData ''xy'', StdoutData ''e'', CloseEvent (Some 0)]) = 0
   \<and> ok (fst (executeAction no_regexp ''/'' sample_config sample_policy
         \<lparr> ae_approve = False,
           ae_run = Inr \<lparr> command = ''ls'', exitCode = Some 0, timedOut = False,
                          stdout = ''abc'', stderr = ''xy'' \<rparr>,
           ae_other = None \<rparr>
         (RunCommand ''ls'') \<lparr> w_files = Map.empty, w_tracker = new_tracker, w_audit = [] \<rparr>))
   \<and> ok (runVerifyCommand no_regexp sample_policy
         (Inr \<lparr> command = ''ls'', exitCode = Some 0, timedOut = False,
                stdout = ''abc'', stderr = ''xy'' \<rparr>) ''ls'')"
  using shell_runner_caps_and_success
    [of 3 "[StdoutData ''abcd'', StderrData ''xy'', StdoutData ''e'']" "''ls''" "Some 0" "[]"
        no_regexp sample_policy
        "\<lparr> ae_approve = False,
           ae_run = Inr \<lparr> command = ''ls'', exitCode = Some 0, timedOut = False,
                          stdout = ''abc'', stderr = ''xy'' \<rparr>,
           ae_other = None \<rparr>"
        "''/''" sample_config "\<lparr> w_files = Map.empty, w_tracker = new_tracker, w_audit = [] \<rparr>"]
  by (simp add: isCommandAllowed_def sample_policy_def js_trim_def js_is_space_def Let_def)

subsection \<open>Secret detection and the blocked write\<close>

lemma add_matches_char:
  "length fs < 20 \<Longrightarrow>
   add_matches ty raws fs =
     (take 20 (fs @ map (\<lambda>raw. \<lparr> finding_type = ty, snippet = mask_snippet raw \<rparr>)
                        (filter (\<lambda>raw. raw \<noteq> []) raws)),
      length fs + length (filter (\<lambda>raw. raw \<noteq> []) raws) \<ge> 20)"
proof (induction raws arbitrary: fs)
  case Nil
  then show ?case by simp
next
  case (Cons raw raws)
  show ?case
  proof (cases "raw = []")
    case True
    with Cons show ?thesis by simp
  next
    case False
    let ?f = "\<lparr> finding_type = ty, snippet = mask_snippet raw \<rparr>"
    show ?thesis
    proof (cases "length (fs @ [?f]) \<ge> 20")
      case True
      with Cons.prems have "length fs = 19" by simp
      with False True show ?thesis by (simp add: Let_def)
    next
      case full: False
      then have "length (fs @ [?f]) < 20" by simp
      from Cons.IH[OF this] False full show ?thesis by (simp add: Let_def)
    qed
  qed
qed

lemma scan_rules_char:
  "length fs < 20 \<Longrightarrow>
   scan_rules rules content fs = take 20 (fs @ concat (map (rule_findings content) rules))"
proof (induction rules arbitrary: fs)
  case Nil
  then show ?case by simp
next
  case (Cons rule rules)
  let ?F = "rule_findings content rule"
  have am: "add_matches (rule_type rule) (matchAll (regex rule) content) fs =
            (take 20 (fs @ ?F), length (fs @ ?F) \<ge> 20)"
    using add_matches_char[OF Cons.prems, of "rule_type rule" "matchAll (regex rule) content"]
    by (simp add: rule_findings_def finding_of_def[abs_def])
  show ?case
  proof (cases "length (fs @ ?F) \<ge> 20")
    case True
    then show ?thesis using am by simp
  next
    case False
    then have short: "length (fs @ ?F) < 20" by simp
    then have "take 20 (fs @ ?F) = fs @ ?F" by simp
    with am False Cons.IH[OF short] show ?thesis by simp
  qed
qed

lemma detectSecrets_char:
  "detectSecrets content = take 20 (concat (map (rule_findings content) SECRET_RULES))"
  unfolding detectSecrets_def using scan_rules_char[of "[]" SECRET_RULES content] by simp

lemma write_secret_blocked:
  assumes "\<not> allowPotentialSecrets policy" "detectSecrets content \<noteq> []"
  shows "ok (fst (executeAction RegExp cwd config policy env (WriteFile path content) w)) = False
         \<and> snd (executeAction RegExp cwd config policy env (WriteFile path content) w) = w"
  using assms
  by (auto simp: executeAction_def write_file_case_def Let_def split: sum.splits)

text \<open>
  C2 (secret-blocked write). When the policy does not allow potential secrets and
  \<open>detectSecrets\<close> finds something in the content, the \<open>write_file\<close> action returns a result
  with \<open>ok = false\<close> and leaves the files, the change tracker and the audit log exactly as
  they were, whatever the path, the user's answer and the policy's globs are.
  \<open>detectSecrets\<close> returns the first 20 of the findings of all rules, in rule order and
  match order, so never more than 20; the snippet of a finding is the masked match, and a
  match longer than 12 code units is masked as its first 6 code units, three dots and
  its last 4 code units.
\<close>

theorem secret_blocked_write_atomic:
  "(\<not> allowPotentialSecrets policy \<and> detectSecrets content \<noteq> [] \<longrightarrow>
      ok (fst (executeAction RegExp cwd config policy env (WriteFile path content) w)) = False
      \<and> snd (executeAction RegExp cwd config policy env (WriteFile path content) w) = w)
   \<and> length (detectSecrets content) \<le> 20
   \<and> detectSecrets content = take 20 (concat (map (rule_findings content) SECRET_RULES))
   \<and> snippet (finding_of rule raw) = mask_snippet raw
   \<and> (length raw > 12 \<longrightarrow>
        mask_snippet raw = take 6 raw @ ''...'' @ drop (length raw - 4) raw)"
  using write_secret_blocked[of policy content RegExp cwd config env path w]
  by (simp add: detectSecrets_char finding_of_def mask_snippet_def)

lemma groq_key_detected:
  "detectSecrets ''gsk_ABCDEFGHIJKLMNOPQRSTU'' =
     [\<lparr> finding_type = ''Groq API key'', snippet = ''gsk_AB...RSTU'' \<rparr>]"
  by code_simp

theorem secret_blocked_write_atomic_witness:
  "ok (fst (executeAction no_regexp ''/'' sample_config sample_policy
         \<lparr> ae_approve = True, ae_run = Inl [], ae_other = None \<rparr>
         (WriteFile ''src/x.ts'' ''gsk_ABCDEFGHIJKLMNOPQRSTU'')
         \<lparr> w_files = [''/w/src/x.ts'' \<mapsto> ''old''], w_tracker = new_tracker, w_audit = [] \<rparr>))
     = False
   \<and> snd (executeAction no_regexp ''/'' sample_config sample_policy
         \<lparr> ae_approve = True, ae_run = Inl [], ae_other = None \<rparr>
         (WriteFile ''src/x.ts'' ''gsk_ABCDEFGHIJKLMNOPQRSTU'')
         \<lparr> w_files = [''/w/src/x.ts'' \<mapsto> ''old''], w_tracker = new_tracker, w_audit = [] \<rparr>)
     = \<lparr> w_files = [''/w/src/x.ts'' \<mapsto> ''old''], w_tracker = new_tracker, w_audit = [] \<rparr>
   \<and> length (detectSecrets ''gsk_ABCDEFGHIJKLMNOPQRSTU'') = 1
   \<and> mask_snippet ''gsk_ABCDEFGHIJKLMNOPQRSTU'' = ''gsk_AB...RSTU''"
proof -
  let ?content = "''gsk_ABCDEFGHIJKLMNOPQRSTU''"
  let ?env = "\<lparr> ae_approve = True, ae_run = Inl [], ae_other = None \<rparr>"
  let ?w = "\<lparr> w_files = [''/w/src/x.ts'' \<mapsto> ''old''], w_tracker = new_tracker, w_audit = [] \<rparr>"
  have found: "detectSecrets ?content \<noteq> []"
    using groq_key_detected by simp
  have strict: "\<not> allowPotentialSecrets sample_policy"
    by (simp add: sample_policy_def)
  have "ok (fst (executeAction no_regexp ''/'' sample_config sample_policy ?env
               (WriteFile ''src/x.ts'' ?content) ?w)) = False
        \<and> snd (executeAction no_regexp ''/'' sample_config sample_policy ?env
               (WriteFile ''src/x.ts'' ?content) ?w) = ?w"
    using secret_blocked_write_atomic
            [of sample_policy ?content no_regexp "''/''" sample_config ?env "''src/x.ts''" ?w
                "hd SECRET_RULES" ?content]
          found strict
    by blast
  moreover have "length (detectSecrets ?content) = 1"
    using groq_key_detected by simp
  moreover have "mask_snippet ?content = ''gsk_AB...RSTU''"
    by (simp add: mask_snippet_def)
  ultimately show ?thesis by blast
qed

subsection \<open>Change tracker\<close>

lemma snapshots_of_rev: "snapshots_of t (rev paths) = rev (snapshots_of t paths)"
  by (induction paths) (auto simp: snapshots_of_def split: option.splits)

lemma rollback_loop_char:
  "rollback_loop cwd root t targets fs restored =
     restored_paths (restore_all cwd root (filter is_changed (snapshots_of t targets)) fs)
       (rev (restored @ map snap_path (filter is_changed (snapshots_of t targets))))"
proof (induction targets arbitrary: fs restored)
  case Nil
  show ?case by (simp add: snapshots_of_def restored_paths_def)
next
  case (Cons path targets)
  have unfold: "snapshots_of t (path # targets) =
        (case snapshots t path of None \<Rightarrow> [] | Some snapshot \<Rightarrow> [snapshot]) @ snapshots_of t targets"
    by (simp add: snapshots_of_def)
  show ?case
  proof (cases "snapshots t path")
    case None
    then show ?thesis using Cons.IH unfold by simp
  next
    case (Some snapshot)
    show ?thesis
    proof (cases "is_changed snapshot")
      case False
      then show ?thesis using Some Cons.IH unfold by (simp add: is_changed_def)
    next
      case True
      then have neq: "snap_before snapshot \<noteq> snap_after snapshot" by (simp add: is_changed_def)
      show ?thesis
      proof (cases "restore_snapshot cwd root snapshot fs")
        case (Inl e)
        then show ?thesis using Some True neq unfold
          by (simp add: restore_snapshot_def restored_paths_def)
      next
        case (Inr fs')
        then show ?thesis using Some True neq unfold Cons.IH[of fs' "restored @ [snap_path snapshot]"]
          by (simp add: restore_snapshot_def)
      qed
    qed
  qed
qed

lemma getChangedFiles_eq: "getChangedFiles t = filter is_changed (snapshots_of t (order t))"
  by (simp add: getChangedFiles_def snapshots_of_def is_changed_def[abs_def])

lemma rollback_char:
  "rollback cwd root t fs =
     restored_paths (restore_all cwd root (rev (getChangedFiles t)) fs)
       (map snap_path (getChangedFiles t))"
  unfolding rollback_def rollback_loop_char getChangedFiles_eq snapshots_of_rev
  by (simp add: rev_filter rev_map)

lemma detectSecrets_empty: "detectSecrets [] = []"
  by code_simp

lemma recordBefore_tracked:
  "snapshots t path \<noteq> None \<Longrightarrow> recordBefore path existed before t = t"
  by (simp add: recordBefore_def)

text \<open>
  The write of \<open>executeAction\<close> that passes the policy and the secret check, changes the
  content and is approved: the file is written, and the tracker records the state before
  (once) and the state after.
\<close>

lemma approved_write:
  assumes "resolveWorkspacePath (posix cwd) (workspaceRoot config) path = Inr absolute"
      and "isWritePathAllowed RegExp policy path = Inr check" and "allowed check"
      and "detectSecrets content = [] \<or> allowPotentialSecrets policy"
      and "ae_approve env"
      and "(case w_files w absolute of None \<Rightarrow> [] | Some text \<Rightarrow> text) \<noteq> content"
  shows "executeAction RegExp cwd config policy env (WriteFile path content) w =
           (\<lparr> tool = ''write_file'', ok = True, summary = WroteFile path,
              data = WriteData path True \<rparr>,
            safeAuditLog ''write_applied'' path
              ((safeAuditLog ''write_proposed'' path w)
                 \<lparr> w_files := (w_files w)(absolute \<mapsto> content),
                   w_tracker := recordAfter path content
                     (recordBefore path (w_files w absolute \<noteq> None)
                        (case w_files w absolute of None \<Rightarrow> [] | Some text \<Rightarrow> text)
                        (w_tracker w)) \<rparr>))"
  using assms
  by (auto simp: executeAction_def write_file_case_def fileExists_def readFileIfExists_def
        writeFile_def safeAuditLog_def Let_def)

text \<open>
  C4 (change tracker: \<open>recordBefore\<close> keeps the first before-state, \<open>rollback\<close> restores
  every snapshot in reverse order of first recording, rewriting the before-bytes where the
  file existed and deleting it otherwise, and returns the restored paths in chronological
  order). \<open>recordBefore\<close> is indeed without effect on a tracked path
  (\<open>recordBefore_tracked\<close>), but \<open>rollback\<close> does not restore every snapshot: it passes over
  each one whose after-bytes equal its before-bytes (\<open>rollback_char\<close>), and the before-bytes
  of a file that did not exist are the empty text. So for a file that is absent when the
  task starts, then written with some content and then written empty, both writes
  approved: the file is there with empty content, \<open>hasChanges\<close> is false, and \<open>rollback\<close>
  restores nothing and returns no path, where restoring every snapshot deletes the file
  and returns its path.
\<close>

theorem rollback_keeps_created_then_emptied_file:
  assumes "resolveWorkspacePath (posix cwd) (workspaceRoot config) path = Inr absolute"
      and "isWritePathAllowed RegExp policy path = Inr check" and "allowed check"
      and "detectSecrets content = [] \<or> allowPotentialSecrets policy"
      and "content \<noteq> []"
      and "ae_approve env"
      and "w_files w absolute = None"
      and "w_tracker w = new_tracker"
  shows "(let (first, w1) = executeAction RegExp cwd config policy env (WriteFile path content) w;
              (second, w2) = executeAction RegExp cwd config policy env (WriteFile path []) w1
          in ok first \<and> ok second
             \<and> w_files w2 absolute = Some []
             \<and> \<not> hasChanges (w_tracker w2)
             \<and> rollback cwd (workspaceRoot config) (w_tracker w2) (w_files w2)
                 = (Inr [], w_files w2)
             \<and> rollback_spec cwd (workspaceRoot config) (w_tracker w2) (w_files w2)
                 = (Inr [path], (w_files w2)(absolute := None)))"
proof -
  define w1 where "w1 = safeAuditLog ''write_applied'' path
              ((safeAuditLog ''write_proposed'' path w)
                 \<lparr> w_files := (w_files w)(absolute \<mapsto> content),
                   w_tracker := recordAfter path content
                     (recordBefore path False [] new_tracker) \<rparr>)"
  define w2 where "w2 = safeAuditLog ''write_applied'' path
              ((safeAuditLog ''write_proposed'' path w1)
                 \<lparr> w_files := (w_files w1)(absolute \<mapsto> []),
                   w_tracker := recordAfter path [] (recordBefore path True content (w_tracker w1)) \<rparr>)"
  have first: "executeAction RegExp cwd config policy env (WriteFile path content) w =
           (\<lparr> tool = ''write_file'', ok = True, summary = WroteFile path,
              data = WriteData path True \<rparr>, w1)"
    using approved_write[OF assms(1-4) assms(6), of w] assms(5,7,8) by (simp add: w1_def)
  have files1: "w_files w1 absolute = Some content"
    by (simp add: w1_def safeAuditLog_def)
  have second: "executeAction RegExp cwd config policy env (WriteFile path []) w1 =
           (\<lparr> tool = ''write_file'', ok = True, summary = WroteFile path,
              data = WriteData path True \<rparr>, w2)"
    using approved_write[OF assms(1-3) _ assms(6), of "[]" w1] assms(5) files1
    by (simp add: detectSecrets_empty w2_def)
  have tracker: "w_tracker w2 =
      \<lparr> snapshots = [path \<mapsto> \<lparr> snap_path = path, snap_existed = False,
                                 snap_before = [], snap_after = [] \<rparr>],
        order = [path] \<rparr>"
    by (simp add: w2_def w1_def safeAuditLog_def recordAfter_def recordBefore_def new_tracker_def)
  have a: "\<not> hasChanges (w_tracker w2)"
    unfolding tracker by (simp add: hasChanges_def snapshot_changed_def)
  have b: "rollback cwd (workspaceRoot config) (w_tracker w2) (w_files w2) = (Inr [], w_files w2)"
    unfolding tracker by (simp add: rollback_def)
  have c: "rollback_spec cwd (workspaceRoot config) (w_tracker w2) (w_files w2)
             = (Inr [path], (w_files w2)(absolute := None))"
    unfolding tracker
    by (simp add: rollback_spec_def snapshots_of_def restore_snapshot_def deleteFileIfExists_def
          restored_paths_def assms(1))
  have d: "w_files w2 absolute = Some []"
    by (simp add: w2_def safeAuditLog_def)
  show ?thesis
    by (simp add: first second a b c d)
qed

theorem rollback_keeps_created_then_emptied_file_witness:
  "(let (first, w1) = executeAction no_regexp ''/'' sample_config sample_policy
                        \<lparr> ae_approve = True, ae_run = Inl [], ae_other = None \<rparr>
                        (WriteFile ''n'' ''a'')
                        \<lparr> w_files = Map.empty, w_tracker = new_tracker, w_audit = [] \<rparr>;
        (second, w2) = executeAction no_regexp ''/'' sample_config sample_policy
                         \<lparr> ae_approve = True, ae_run = Inl [], ae_other = None \<rparr>
                         (WriteFile ''n'' []) w1
    in ok first \<and> ok second
       \<and> w_files w2 ''/w/n'' = Some []
       \<and> \<not> hasChanges (w_tracker w2)
       \<and> rollback ''/'' ''/w'' (w_tracker w2) (w_files w2) = (Inr [], w_files w2)
       \<and> rollback_spec ''/'' ''/w'' (w_tracker w2) (w_files w2)
           = (Inr [''n''], (w_files w2)(''/w/n'' := None)))"
proof -
  have resolve: "resolveWorkspacePath (posix ''/'') (workspaceRoot sample_config) ''n'' = Inr ''/w/n''"
    by code_simp
  have check: "isWritePathAllowed no_regexp sample_policy ''n''
                 = Inr \<lparr> allowed = True, reason = None \<rparr>"
    by code_simp
  have clean: "detectSecrets ''a'' = [] \<or> allowPotentialSecrets sample_policy"
    by code_simp
  have root: "workspaceRoot sample_config = ''/w''"
    by (simp add: sample_config_def)
  from rollback_keeps_created_then_emptied_file
         [OF resolve check _ clean, of "\<lparr> ae_approve = True, ae_run = Inl [], ae_other = None \<rparr>"
            "\<lparr> w_files = Map.empty, w_tracker = new_tracker, w_audit = [] \<rparr>"]
  show ?thesis
    unfolding root by simp
qed

text \<open>
  The same guard with two spellings of one file: \<open>a\<close>, which held \<open>one\<close>, is written with
  \<open>two\<close>, then as \<open>./a\<close> with \<open>three\<close>, then as \<open>a\<close> with \<open>one\<close>. \<open>rollback\<close> rewrites the
  snapshot of \<open>./a\<close> and passes over that of \<open>a\<close>, leaving \<open>two\<close> in the file; restoring
  every snapshot leaves \<open>one\<close>.
\<close>

lemma rollback_alias_keeps_mid_session_content:
  "(let w = write_all [(''a'', ''two''), (''./a'', ''three''), (''a'', ''one'')]
              \<lparr> w_files = [''/w/a'' \<mapsto> ''one''], w_tracker = new_tracker, w_audit = [] \<rparr>;
        (restored, fs) = rollback ''/'' ''/w'' (w_tracker w) (w_files w);
        (restored', fs') = rollback_spec ''/'' ''/w'' (w_tracker w) (w_files w)
    in (w_files w ''/w/a'', restored, fs ''/w/a'', restored', fs' ''/w/a''))
   = (Some ''one'', Inr [''./a''], Some ''two'', Inr [''a'', ''./a''], Some ''one'')"
  by code_simp

subsection \<open>Auto-verify discovery\<close>

lemma dedup_first_distinct: "distinct (dedup_first xs)"
  by (simp add: dedup_first_def)

lemma dedup_first_id: "distinct xs \<Longrightarrow> dedup_first xs = xs"
  by (simp add: dedup_first_def distinct_remdups_id)

lemma dedup_first_snoc:
  "dedup_first (xs @ [x]) = (if x \<in> set xs then dedup_first xs else dedup_first xs @ [x])"
  by (simp add: dedup_first_def)

lemma set_dedup_first: "set (dedup_first xs) = set xs"
  by (simp add: dedup_first_def)

lemma foldl_addUnique:
  "distinct acc \<Longrightarrow> foldl addUnique acc xs = dedup_first (acc @ xs)"
proof (induction xs rule: rev_induct)
  case Nil
  then show ?case by (simp add: dedup_first_id)
next
  case (snoc x xs)
  have "dedup_first (acc @ xs @ [x]) =
        (if x \<in> set (acc @ xs) then dedup_first (acc @ xs) else dedup_first (acc @ xs) @ [x])"
    using dedup_first_snoc[of "acc @ xs" x] by simp
  then show ?case
    using snoc by (simp add: addUnique_def set_dedup_first)
qed

lemma dedup_first_absorb: "dedup_first (dedup_first xs @ ys) = dedup_first (xs @ ys)"
  by (simp add: dedup_first_def remdups_append2)

lemma memory_verify_loop_char:
  "memory_verify_loop raws commands =
     foldl addUnique commands (map verify_entry_command (filter is_verify_entry raws))"
proof (induction raws arbitrary: commands)
  case Nil
  show ?case by simp
next
  case (Cons raw raws)
  show ?case
  proof (cases "js_trim raw = []")
    case True
    then have "\<not> is_verify_entry raw"
      by (simp add: is_verify_entry_def js_toLowerCase_def)
    with True Cons show ?thesis by simp
  next
    case False
    then show ?thesis
      using Cons by (simp add: Let_def is_verify_entry_def verify_entry_command_def)
  qed
qed

lemma extractMemoryVerifyCommands_char:
  "extractMemoryVerifyCommands memory =
     dedup_first (map verify_entry_command (filter is_verify_entry (commonCommands memory)))"
  by (simp add: extractMemoryVerifyCommands_def memory_verify_loop_char foldl_addUnique)

lemma discover_char:
  "discoverAutoVerifyCommands JSON_parse cwd root fs memory maxCommands =
     take (nat (max 1 maxCommands))
       (dedup_first
          (map verify_entry_command (filter is_verify_entry (commonCommands memory))
           @ detectNodeVerifyCommands JSON_parse (readFileOrEmpty cwd root fs ''package.json'')
           @ detectPythonVerifyCommands (readFileOrEmpty cwd root fs ''pyproject.toml'')
               (readFileOrEmpty cwd root fs ''requirements.txt'')
               (readFileOrEmpty cwd root fs ''requirements-dev.txt'')
               (readFileOrEmpty cwd root fs ''setup.cfg'')))"
proof -
  let ?M = "map verify_entry_command (filter is_verify_entry (commonCommands memory))"
  let ?N = "detectNodeVerifyCommands JSON_parse (readFileOrEmpty cwd root fs ''package.json'')"
  let ?P = "detectPythonVerifyCommands (readFileOrEmpty cwd root fs ''pyproject.toml'')
               (readFileOrEmpty cwd root fs ''requirements.txt'')
               (readFileOrEmpty cwd root fs ''requirements-dev.txt'')
               (readFileOrEmpty cwd root fs ''setup.cfg'')"
  have c1: "foldl addUnique [] (extractMemoryVerifyCommands memory) = dedup_first ?M"
    by (simp add: extractMemoryVerifyCommands_char foldl_addUnique dedup_first_id dedup_first_distinct)
  have c2: "foldl addUnique (dedup_first ?M) ?N = dedup_first (?M @ ?N)"
    by (simp add: foldl_addUnique dedup_first_distinct dedup_first_absorb)
  have c3: "foldl addUnique (dedup_first (?M @ ?N)) ?P = dedup_first (?M @ ?N @ ?P)"
    using dedup_first_absorb[of "?M @ ?N" ?P]
    by (simp add: foldl_addUnique dedup_first_distinct)
  show ?thesis
    unfolding discoverAutoVerifyCommands_def Let_def c1 c2 c3 by simp
qed

lemma node_script_commands_order:
  "node_script_commands scripts =
     (if script_present scripts ''test'' then [''npm run -s test --if-present''] else [])
     @ (if script_present scripts ''lint'' then [''npm run -s lint --if-present''] else [])
     @ (if script_present scripts ''format:check'' then [''npm run -s format:check --if-present'']
        else if script_present scripts ''format'' then [''npm run -s format --if-present''] else [])
     @ (if script_present scripts ''typecheck'' then [''npm run -s typecheck --if-present''] else [])
     @ (if script_present scripts ''check'' then [''npm run -s check --if-present''] else [])"
  by (simp add: node_script_commands_def addUnique_def Let_def)


lemma remdups_append_filter:
  "remdups (xs @ ys) = remdups (filter (\<lambda>x. x \<notin> set ys) xs) @ remdups ys"
  by (induction xs) auto

lemma dedup_first_append:
  "dedup_first (xs @ ys) = dedup_first xs @ dedup_first (filter (\<lambda>y. y \<notin> set xs) ys)"
  using remdups_append_filter[of "rev ys" "rev xs"]
  by (simp add: dedup_first_def rev_filter)

lemma verify_build_command: "verify_entry_command ''verify:npm run build'' = ''npm run build''"
  by code_simp

lemma verify_build_entry: "is_verify_entry ''verify:npm run build''"
  by code_simp

lemma first_three_commands:
  "take 3 (dedup_first ([''npm run build'', ''npm run -s test --if-present'',
                         ''npm run -s lint --if-present''] @ rest))
     = [''npm run build'', ''npm run -s test --if-present'', ''npm run -s lint --if-present'']"
proof -
  have "dedup_first [''npm run build'', ''npm run -s test --if-present'',
                     ''npm run -s lint --if-present'']
        = [''npm run build'', ''npm run -s test --if-present'', ''npm run -s lint --if-present'']"
    by (rule dedup_first_id) simp
  then show ?thesis
    unfolding dedup_first_append[of "[''npm run build'', ''npm run -s test --if-present'',
                         ''npm run -s lint --if-present'']" rest]
    by simp
qed

lemma test_lint_scripts:
  assumes "t \<noteq> []" "l \<noteq> []"
  shows "node_script_commands (JObj [(''test'', JStr t), (''lint'', JStr l)])
           = [''npm run -s test --if-present'', ''npm run -s lint --if-present'']"
  using assms by (simp add: node_script_commands_order script_present_def)

text \<open>
  C6, as stated, fails in two places. With a command budget of 0 the function still
  returns one command (the budget is \<open>Math.max(1, maxCommands)\<close>), where truncating to the
  budget returns none. And an entry of memory contributes when its trimmed text starts
  with \<open>verify:\<close> in any letter case, the command being the trimmed text after the colon:
  the entry \<open>VERIFY: npm test\<close> contributes \<open>npm test\<close>, although it does not start with
  the literal prefix.
\<close>

theorem auto_verify_budget_and_prefix_counterexample:
  "discoverAutoVerifyCommands sample_JSON_parse ''/'' ''/w'' sample_package_files
     (sample_memory [''verify:npm run build'']) 0 = [''npm run build'']
   \<and> discover_spec sample_JSON_parse ''/'' ''/w'' sample_package_files
     (sample_memory [''verify:npm run build'']) 0 = []
   \<and> discoverAutoVerifyCommands sample_JSON_parse ''/'' ''/w'' sample_package_files
     (sample_memory [''VERIFY: npm test'']) 8
     = [''npm test'', ''npm run -s test --if-present'', ''npm run -s lint --if-present'']
   \<and> discover_spec sample_JSON_parse ''/'' ''/w'' sample_package_files
     (sample_memory [''VERIFY: npm test'']) 8
     = [''npm run -s test --if-present'', ''npm run -s lint --if-present'']"
  by code_simp

text \<open>
  C6, amended. \<open>discoverAutoVerifyCommands\<close> returns the first \<open>max(1, maxCommands)\<close>
  elements of the list, with every command kept at its first occurrence only, of: one
  command for each \<open>commonCommands\<close> entry whose trimmed text starts with \<open>verify:\<close> in any
  letter case (the trimmed text after the colon), then the \<open>package.json\<close> script commands,
  then the Python commands. The result has no duplicates. The script commands come in the
  fixed order \<open>test\<close>, \<open>lint\<close>, \<open>format:check\<close> (else \<open>format\<close>), \<open>typecheck\<close>, \<open>check\<close>, each as
  \<open>npm run -s <name> --if-present\<close>. For a \<open>package.json\<close> whose scripts are \<open>test\<close> and \<open>lint\<close>
  (both non-empty), the single memory entry \<open>verify:npm run build\<close> and a budget of at least
  3, the result begins \<open>npm run build\<close>, \<open>npm run -s test --if-present\<close>,
  \<open>npm run -s lint --if-present\<close>.
\<close>

theorem auto_verify_discovery_order:
  "discoverAutoVerifyCommands JSON_parse cwd root fs memory maxCommands =
     take (nat (max 1 maxCommands))
       (dedup_first
          (map verify_entry_command (filter is_verify_entry (commonCommands memory))
           @ detectNodeVerifyCommands JSON_parse (readFileOrEmpty cwd root fs ''package.json'')
           @ detectPythonVerifyCommands (readFileOrEmpty cwd root fs ''pyproject.toml'')
               (readFileOrEmpty cwd root fs ''requirements.txt'')
               (readFileOrEmpty cwd root fs ''requirements-dev.txt'')
               (readFileOrEmpty cwd root fs ''setup.cfg'')))
   \<and> distinct (discoverAutoVerifyCommands JSON_parse cwd root fs memory maxCommands)
   \<and> node_script_commands scripts =
       (if script_present scripts ''test'' then [''npm run -s test --if-present''] else [])
       @ (if script_present scripts ''lint'' then [''npm run -s lint --if-present''] else [])
       @ (if script_present scripts ''format:check'' then [''npm run -s format:check --if-present'']
          else if script_present scripts ''format'' then [''npm run -s format --if-present''] else [])
       @ (if script_present scripts ''typecheck'' then [''npm run -s typecheck --if-present''] else [])
       @ (if script_present scripts ''check'' then [''npm run -s check --if-present''] else [])
   \<and> (js_trim (readFileOrEmpty cwd root fs ''package.json'') \<noteq> []
        \<and> JSON_parse (readFileOrEmpty cwd root fs ''package.json'')
            = Some (JObj [(''scripts'', JObj [(''test'', JStr t), (''lint'', JStr l)])])
        \<and> t \<noteq> [] \<and> l \<noteq> []
        \<and> commonCommands memory = [''verify:npm run build'']
        \<and> 3 \<le> maxCommands
        \<longrightarrow> take 3 (discoverAutoVerifyCommands JSON_parse cwd root fs memory maxCommands)
            = [''npm run build'', ''npm run -s test --if-present'',
               ''npm run -s lint --if-present''])"
proof -
  let ?P = "detectPythonVerifyCommands (readFileOrEmpty cwd root fs ''pyproject.toml'')
               (readFileOrEmpty cwd root fs ''requirements.txt'')
               (readFileOrEmpty cwd root fs ''requirements-dev.txt'')
               (readFileOrEmpty cwd root fs ''setup.cfg'')"
  have d: "distinct (discoverAutoVerifyCommands JSON_parse cwd root fs memory maxCommands)"
    unfolding discover_char by (simp add: dedup_first_distinct)
  have scenario: "take 3 (discoverAutoVerifyCommands JSON_parse cwd root fs memory maxCommands)
            = [''npm run build'', ''npm run -s test --if-present'', ''npm run -s lint --if-present'']"
    if pkg: "js_trim (readFileOrEmpty cwd root fs ''package.json'') \<noteq> []"
       "JSON_parse (readFileOrEmpty cwd root fs ''package.json'')
            = Some (JObj [(''scripts'', JObj [(''test'', JStr t), (''lint'', JStr l)])])"
       and tl: "t \<noteq> []" "l \<noteq> []"
       and mem: "commonCommands memory = [''verify:npm run build'']"
       and budget: "3 \<le> maxCommands"
  proof -
    have node: "detectNodeVerifyCommands JSON_parse (readFileOrEmpty cwd root fs ''package.json'')
                = [''npm run -s test --if-present'', ''npm run -s lint --if-present'']"
      using pkg test_lint_scripts[OF tl] by (simp add: detectNodeVerifyCommands_def)
    have m: "map verify_entry_command (filter is_verify_entry (commonCommands memory))
             = [''npm run build'']"
      by (simp add: mem verify_build_entry verify_build_command)
    have "take 3 (take (nat (max 1 maxCommands))
                    (dedup_first ([''npm run build'', ''npm run -s test --if-present'',
                                   ''npm run -s lint --if-present''] @ ?P)))
          = take 3 (dedup_first ([''npm run build'', ''npm run -s test --if-present'',
                                   ''npm run -s lint --if-present''] @ ?P))"
    proof -
      have "min 3 (nat (max 1 maxCommands)) = 3"
        using budget by arith
      then show ?thesis by simp
    qed
    then show ?thesis
      unfolding discover_char node m using first_three_commands[of ?P] by simp
  qed
  show ?thesis
    using discover_char[of JSON_parse cwd root fs memory maxCommands] d
          node_script_commands_order[of scripts] scenario
    by blast
qed

theorem auto_verify_discovery_order_witness:
  "take 3 (discoverAutoVerifyCommands sample_JSON_parse ''/'' ''/w'' sample_package_files
             (sample_memory [''verify:npm run build'']) 8)
     = [''npm run build'', ''npm run -s test --if-present'', ''npm run -s lint --if-present'']"
proof -
  have raw: "readFileOrEmpty ''/'' ''/w'' sample_package_files ''package.json''
             = ''{\"scripts\":{\"test\":\"vitest run\",\"lint\":\"eslint .\"}}''"
    by code_simp
  have trimmed: "js_trim ''{\"scripts\":{\"test\":\"vitest run\",\"lint\":\"eslint .\"}}'' \<noteq> []"
    by code_simp
  have parsed: "sample_JSON_parse ''{\"scripts\":{\"test\":\"vitest run\",\"lint\":\"eslint .\"}}''
                = Some (JObj [(''scripts'', JObj [(''test'', JStr ''vitest run''),
                                                   (''lint'', JStr ''eslint .'')])])"
    by code_simp
  have mem: "commonCommands (sample_memory [''verify:npm run build'']) = [''verify:npm run build'']"
    by (simp add: sample_memory_def)
  have hyps: "js_trim (readFileOrEmpty ''/'' ''/w'' sample_package_files ''package.json'') \<noteq> []
        \<and> sample_JSON_parse (readFileOrEmpty ''/'' ''/w'' sample_package_files ''package.json'')
            = Some (JObj [(''scripts'', JObj [(''test'', JStr ''vitest run''),
                                               (''lint'', JStr ''eslint .'')])])
        \<and> ''vitest run'' \<noteq> [] \<and> ''eslint .'' \<noteq> []
        \<and> commonCommands (sample_memory [''verify:npm run build'']) = [''verify:npm run build'']
        \<and> (3::int) \<le> 8"
    unfolding raw using trimmed parsed mem by simp
  from auto_verify_discovery_order
         [of sample_JSON_parse "''/''" "''/w''" sample_package_files
             "sample_memory [''verify:npm run build'']" 8 "JObj []"
             "''vitest run''" "''eslint .''"]
       hyps
  show ?thesis by blast
qed

subsection \<open>Response parser\<close>

lemma normalizePlan_bounds:
  "normalizePlan v = Inr p \<Longrightarrow>
   length p \<le> 12 \<and> (\<forall>step \<in> set p. step \<noteq> [] \<and> step \<in> range js_trim)"
  by (auto simp: normalizePlan_def trimmed_nonempty_def
           split: option.splits json.splits sum.splits dest!: in_set_takeD)

lemma normalizeActions_bounds: "normalizeActions v = Inr a \<Longrightarrow> length a \<le> 6"
  by (auto simp: normalizeActions_def split: option.splits json.splits sum.splits)

lemma normalizeVerify_bounds: "length (normalizeVerify v) \<le> 8"
  by (auto simp: normalizeVerify_def split: option.splits json.splits)

text \<open>
  What holds whenever \<open>parseAgentModelResponse\<close> returns: the three caps, plan steps that
  are trimmed and not empty, and the \<open>need_user\<close> response without actions for a text that
  \<open>JSON.parse\<close> rejects.
\<close>

lemma parser_result_bounds:
  assumes "parseAgentModelResponse JSON_parse rawText = Inr r"
  shows "length (actions r) \<le> 6 \<and> length (verify r) \<le> 8 \<and> length (plan r) \<le> 12
         \<and> (\<forall>step \<in> set (plan r). step \<noteq> [] \<and> step \<in> range js_trim)"
proof (cases "JSON_parse (extractJson rawText)")
  case None
  then have "r = invalid_json_response"
    using assms by (simp add: parseAgentModelResponse_def)
  then show ?thesis by (simp add: invalid_json_response_def)
next
  case (Some parsed)
  show ?thesis
  proof (cases "\<not> js_truthy parsed \<or> \<not> is_object parsed")
    case True
    then have "r = invalid_shape_response"
      using assms Some by (simp add: parseAgentModelResponse_def)
    then show ?thesis by (simp add: invalid_shape_response_def)
  next
    case False
    from assms Some False obtain p a where
      p: "normalizePlan (js_get parsed ''plan'') = Inr p" and
      a: "normalizeActions (js_get parsed ''actions'') = Inr a" and
      r: "plan r = p" "actions r = a" "verify r = normalizeVerify (js_get parsed ''verify'')"
      by (auto simp: parseAgentModelResponse_def split: sum.splits)
    show ?thesis
      using normalizePlan_bounds[OF p] normalizeActions_bounds[OF a]
            normalizeVerify_bounds[of "js_get parsed ''verify''"] r
      by simp
  qed
qed

lemma parser_invalid_json:
  "JSON_parse (extractJson rawText) = None \<Longrightarrow>
   parseAgentModelResponse JSON_parse rawText = Inr invalid_json_response
   \<and> status invalid_json_response = NeedUser \<and> actions invalid_json_response = []"
  by (simp add: parseAgentModelResponse_def invalid_json_response_def)

text \<open>
  C3 (parser totality) does not hold of the code. For the response text
  \<open>{"plan":[{"toString":1}]}\<close>, which \<open>JSON.parse\<close> accepts, \<open>normalizePlan\<close> applies
  \<open>String\<close> to an object whose own \<open>toString\<close> property is the number 1; the conversion
  throws a \<open>TypeError\<close>, which nothing in \<open>parseAgentModelResponse\<close> catches, so no response
  is returned.
\<close>

theorem parser_throws_on_own_toString:
  "parseAgentModelResponse sample_JSON_parse ''{\"plan\":[{\"toString\":1}]}''
     = Inl (TypeError ''Cannot convert object to primitive value'')"
  by code_simp

text \<open>So for this text no response is returned at all.\<close>

theorem parser_throws_on_own_toString_witness:
  "\<not> (\<exists>r. parseAgentModelResponse sample_JSON_parse ''{\"plan\":[{\"toString\":1}]}'' = Inr r)"
  using parser_throws_on_own_toString by simp

subsection \<open>Text search\<close>

lemma walk_length:
  "int (length results) \<le> maxEntries \<Longrightarrow>
   int (length (walk recursive maxDepth maxEntries dir depth entries results)) \<le> maxEntries"
  by (induction recursive maxDepth maxEntries dir depth entries results rule: walk.induct) auto

lemma listFiles_length:
  "1 \<le> maxEntries \<Longrightarrow>
   int (length (listFiles localeCompare tree recursive maxDepth maxEntries)) \<le> maxEntries"
  using walk_length[of "[]" maxEntries]
  by (auto simp: listFiles_def split: fsnode.splits)

lemma grep_lines_char:
  "length found \<le> nat maxMatches \<Longrightarrow>
   grep_lines matcher maxMatches file index lines found =
     take (nat maxMatches) (found @ line_matches matcher file index lines)"
proof (induction lines arbitrary: index found)
  case Nil
  then show ?case by simp
next
  case (Cons line lines)
  show ?case
  proof (cases "int (length found) \<ge> maxMatches")
    case True
    with Cons.prems have "length found = nat maxMatches" by linarith
    with True show ?thesis by simp
  next
    case False
    then have room: "length found < nat maxMatches" by linarith
    show ?thesis
    proof (cases "matcher line")
      case True
      have "length (found @ [\<lparr> gm_path = file, gm_line = index + 1, gm_text = line \<rparr>]) \<le> nat maxMatches"
        using room by simp
      from Cons.IH[OF this] False True show ?thesis
        by simp
    next
      case no: False
      from Cons.IH[OF Cons.prems] False no show ?thesis
        by simp
    qed
  qed
qed

lemma grep_files_char:
  assumes "length found \<le> nat maxMatches"
      and "\<forall>file \<in> set files. \<exists>absolute. resolveWorkspacePath (posix cwd) root file = Inr absolute"
  shows "\<exists>scanned. grep_files cwd root readFile matcher maxMatches files found scannedFiles =
           Inr (take (nat maxMatches)
                  (found @ concat (map (file_matches cwd root readFile matcher) files)), scanned)"
  using assms
proof (induction files arbitrary: found scannedFiles)
  case Nil
  then show ?case by simp
next
  case (Cons f files)
  obtain absolute where abs: "resolveWorkspacePath (posix cwd) root f = Inr absolute"
    using Cons.prems(2) by auto
  have rest: "\<forall>file \<in> set files. \<exists>absolute. resolveWorkspacePath (posix cwd) root file = Inr absolute"
    using Cons.prems(2) by simp
  show ?case
  proof (cases "int (length found) \<ge> maxMatches")
    case True
    with Cons.prems(1) have "length found = nat maxMatches" by linarith
    with True show ?thesis by simp
  next
    case False
    show ?thesis
    proof (cases "readFile absolute")
      case None
      then have fm: "file_matches cwd root readFile matcher f = []"
        by (simp add: file_matches_def abs)
      from Cons.IH[OF Cons.prems(1) rest, of scannedFiles] False None abs fm
      show ?thesis by simp
    next
      case (Some raw)
      let ?found' = "grep_lines matcher maxMatches f 0 (js_split_lines raw) found"
      have fm: "file_matches cwd root readFile matcher f
                = line_matches matcher f 0 (js_split_lines raw)"
        by (simp add: file_matches_def abs Some)
      have eq: "?found' = take (nat maxMatches) (found @ file_matches cwd root readFile matcher f)"
        using grep_lines_char[OF Cons.prems(1)] fm by simp
      then have len: "length ?found' \<le> nat maxMatches" by simp
      have "take (nat maxMatches) (?found' @ rest') =
            take (nat maxMatches) (found @ file_matches cwd root readFile matcher f @ rest')" for rest'
        unfolding eq by (simp add: min_def)
      with Cons.IH[OF len rest, of "Suc scannedFiles"] False Some abs
      show ?thesis by simp
    qed
  qed
qed


lemma walk_char:
  "walk recursive maxDepth maxEntries dir depth entries results =
     results @ take (nat maxEntries - length results)
                 (tree_listing recursive maxDepth dir depth entries)"
proof (induction recursive maxDepth maxEntries dir depth entries results rule: walk.induct)
  case (1 recursive maxDepth maxEntries dir depth results)
  show ?case by simp
next
  case (2 recursive maxDepth maxEntries dir depth name rest results)
  show ?case
  proof (cases "int (length results) \<ge> maxEntries")
    case True
    then have "nat maxEntries - length results = 0" by linarith
    with True show ?thesis by simp
  next
    case False
    then obtain k where k: "nat maxEntries - length results = Suc k"
      by (cases "nat maxEntries - length results") (linarith, blast)
    then have "nat maxEntries - length (results @ [relative_entry dir name]) = k" by simp
    with 2 False k show ?thesis by simp
  qed
next
  case (3 recursive maxDepth maxEntries dir depth name entries rest results)
  show ?case
  proof (cases "int (length results) \<ge> maxEntries")
    case True
    then have "nat maxEntries - length results = 0" by linarith
    with True show ?thesis by simp
  next
    case False
    then obtain k where k: "nat maxEntries - length results = Suc k"
      by (cases "nat maxEntries - length results") (linarith, blast)
    show ?thesis
    proof (cases "name \<in> set DEFAULT_IGNORED_DIRS")
      case True
      with 3 False show ?thesis by simp
    next
      case notignored: False
      let ?d = "relative_entry dir name @ ''/''"
      have k': "nat maxEntries - length (results @ [?d]) = k" using k by simp
      show ?thesis
      proof (cases "recursive \<and> depth < maxDepth")
        case enter: True
        let ?sub = "tree_listing recursive maxDepth (relative_entry dir name) (depth + 1) entries"
        let ?inner = "walk recursive maxDepth maxEntries (relative_entry dir name) (depth + 1)
                        entries (results @ [?d])"
        have inner: "?inner = (results @ [?d]) @ take k ?sub"
          using 3(2)[OF False notignored enter] k' by simp
        have outer: "walk recursive maxDepth maxEntries dir depth rest ?inner =
                       ?inner @ take (nat maxEntries - length ?inner)
                                  (tree_listing recursive maxDepth dir depth rest)"
          using 3(3)[OF False notignored] enter by simp
        have len: "nat maxEntries - length ?inner = k - length (take k ?sub)"
          unfolding inner using k by simp
        have "take (Suc k) (?d # ?sub @ tree_listing recursive maxDepth dir depth rest)
              = ?d # take k ?sub @ take (k - length (take k ?sub))
                                    (tree_listing recursive maxDepth dir depth rest)"
          by (simp add: min_def)
        with False notignored enter outer inner len k show ?thesis
          by simp
      next
        case noenter: False
        have outer: "walk recursive maxDepth maxEntries dir depth rest (results @ [?d]) =
                       (results @ [?d]) @ take k (tree_listing recursive maxDepth dir depth rest)"
          using 3(3)[OF False notignored] noenter k' by simp
        have cond: "(recursive \<and> depth < maxDepth) = False" using noenter by simp
        show ?thesis
          using False notignored k outer by (simp add: cond)
      qed
    qed
  qed
qed

lemma listFiles_char:
  "sort_tree localeCompare tree = DirNode entries \<Longrightarrow>
   listFiles localeCompare tree recursive maxDepth maxEntries =
     take (nat maxEntries) (tree_listing recursive maxDepth [] 0 entries)"
  by (simp add: listFiles_def walk_char)


lemma file_at_iff:
  "file_at entries names \<longleftrightarrow>
     (\<exists>name. names = [name] \<and> (name, FileNode) \<in> set entries)
     \<or> (\<exists>n ns sub. names = n # ns \<and> (n, DirNode sub) \<in> set entries
            \<and> n \<notin> set DEFAULT_IGNORED_DIRS \<and> file_at sub ns)"
proof (induction entries)
  case Nil
  show ?case by simp
next
  case (Cons entry entries)
  obtain name node where entry: "entry = (name, node)" by (cases entry)
  show ?case
  proof (cases node)
    case FileNode
    with entry Cons show ?thesis by auto
  next
    case (DirNode sub)
    with entry Cons show ?thesis by (cases names) auto
  qed
qed

lemma file_at_names: "file_at entries names \<Longrightarrow> names \<noteq> []"
  using file_at_iff[of entries names] by auto

lemma set_insert_by: "set (insert_by cmp x xs) = insert x (set xs)"
  by (induction xs) auto

lemma set_sort_by: "set (sort_by cmp xs) = set xs"
  unfolding sort_by_def by (induction xs) (simp_all add: set_insert_by)

lemma sort_tree_entries:
  "sort_tree localeCompare (DirNode entries) = DirNode ordered \<Longrightarrow>
   set ordered = (\<lambda>(name, node). (name, sort_tree localeCompare node)) ` set entries"
  by (auto simp: set_sort_by)

lemma file_at_sort_tree:
  "file_at entries names \<Longrightarrow> sort_tree localeCompare (DirNode entries) = DirNode ordered
   \<Longrightarrow> file_at ordered names"
proof (induction names arbitrary: entries ordered)
  case Nil
  then show ?case using file_at_names by blast
next
  case (Cons n ns)
  have ordered: "set ordered = (\<lambda>(name, node). (name, sort_tree localeCompare node)) ` set entries"
    by (rule sort_tree_entries[OF Cons.prems(2)])
  from Cons.prems(1) consider
      (leaf) "ns = []" "(n, FileNode) \<in> set entries"
    | (dir) sub where "(n, DirNode sub) \<in> set entries" "n \<notin> set DEFAULT_IGNORED_DIRS"
        "file_at sub ns"
    using file_at_iff[of entries "n # ns"] by auto
  then show ?case
  proof cases
    case leaf
    from leaf(2) have "(n, FileNode) \<in> set ordered"
      unfolding ordered by force
    with leaf(1) show ?thesis
      using file_at_iff[of ordered "n # ns"] by simp
  next
    case (dir sub)
    obtain sub' where sub': "sort_tree localeCompare (DirNode sub) = DirNode sub'"
      by simp
    have "file_at sub' ns"
      by (rule Cons.IH[OF dir(3) sub'])
    moreover have "(n, DirNode sub') \<in> set ordered"
      unfolding ordered using dir(1) sub' by force
    ultimately show ?thesis
      using dir(2) file_at_iff[of ordered "n # ns"] by blast
  qed
qed

lemma file_at_listed:
  "file_at entries names \<Longrightarrow> int (length names) \<le> maxDepth - depth + 1 \<Longrightarrow>
   foldl relative_entry dir names \<in> set (tree_listing True maxDepth dir depth entries)"
proof (induction True maxDepth dir depth entries arbitrary: names rule: tree_listing.induct)
  case (1 maxDepth dir depth)
  then show ?case by simp
next
  case (2 maxDepth dir depth name rest)
  then show ?case by auto
next
  case (3 maxDepth dir depth name entries rest)
  show ?case
  proof (cases "file_at rest names")
    case True
    then have "foldl relative_entry dir names \<in> set (tree_listing True maxDepth dir depth rest)"
      using 3 by (cases "name \<in> set DEFAULT_IGNORED_DIRS") auto
    then show ?thesis by simp
  next
    case False
    with 3(4) obtain ns where names: "names = name # ns"
      and notignored: "name \<notin> set DEFAULT_IGNORED_DIRS" and sub: "file_at entries ns"
      by (cases names) auto
    have "ns \<noteq> []" using sub file_at_names by blast
    then have "length ns \<ge> 1" by (cases ns) auto
    with 3(5) names have enter: "depth < maxDepth" and
      len: "int (length ns) \<le> maxDepth - (depth + 1) + 1"
      by auto
    have "foldl relative_entry (relative_entry dir name) ns
            \<in> set (tree_listing True maxDepth (relative_entry dir name) (depth + 1) entries)"
      using 3(2)[OF notignored _ sub len] enter by simp
    then show ?thesis
      using names notignored enter by simp
  qed
qed

text \<open>
  C9 (search fallback). When ripgrep is unavailable, or its invocation failed, and every
  listed candidate resolves inside the workspace (as the names \<open>fs.readdir\<close> returns do),
  \<open>grepWorkspace\<close> is \<open>grepWithJs\<close>, which is not given the glob: the result has backend
  \<open>js\<close>, and its matches are the first \<open>maxMatches\<close> of the matching lines of all
  candidate files in listing order, whatever the glob is. The candidates are, of the first
  2500 entries of the listing that enters directories down to depth 8, those that are not
  directories and whose extension is not one of the binary-like ones. In particular, when
  the listing has no more than 2500 entries, every file that is reached from the root
  through at most 8 directories, none of them ignored, and whose extension is not
  binary-like, is a candidate.
\<close>

theorem grep_fallback_ignores_glob:
  assumes "\<not> ge_hasRipgrep env \<or> ge_ripgrep env pattern glob maxMatches = None"
      and "\<forall>f \<in> set (grep_candidates env). \<exists>absolute. resolveWorkspacePath (posix cwd) root f = Inr absolute"
      and "ge_tree env = DirNode entries"
  shows "grepWorkspace cwd root env pattern glob maxMatches = grepWithJs cwd root env pattern maxMatches
         \<and> (\<exists>scanned. grepWorkspace cwd root env pattern glob maxMatches =
               Inr \<lparr> backend = ''js'',
                     matches = take (nat maxMatches)
                       (concat (map (file_matches cwd root (ge_readFile env)
                                       (compileLineMatcher (ge_RegExp env) pattern))
                                    (grep_candidates env))),
                     totalScannedFiles = scanned \<rparr>)
         \<and> (\<exists>ordered. sort_tree (ge_localeCompare env) (ge_tree env) = DirNode ordered
               \<and> grep_candidates env =
                   filter (\<lambda>f. \<not> suffix ''/'' f \<and> canReadAsText f)
                     (take 2500 (tree_listing True 8 [] 0 ordered))
               \<and> (\<forall>names. file_at entries names \<and> length names \<le> 9
                     \<and> length (tree_listing True 8 [] 0 ordered) \<le> 2500
                     \<and> \<not> suffix ''/'' (foldl relative_entry [] names)
                     \<and> canReadAsText (foldl relative_entry [] names)
                     \<longrightarrow> foldl relative_entry [] names \<in> set (grep_candidates env)))"
proof -
  have fallback: "grepWorkspace cwd root env pattern glob maxMatches
                  = grepWithJs cwd root env pattern maxMatches"
    using assms(1) by (auto simp: grepWorkspace_def)
  obtain scanned where loop:
    "grep_files cwd root (ge_readFile env) (compileLineMatcher (ge_RegExp env) pattern) maxMatches
       (grep_candidates env) [] 0 =
     Inr (take (nat maxMatches)
            ([] @ concat (map (file_matches cwd root (ge_readFile env)
                                 (compileLineMatcher (ge_RegExp env) pattern))
                              (grep_candidates env))), scanned)"
    using grep_files_char[OF _ assms(2), of "[]" maxMatches "ge_readFile env"
            "compileLineMatcher (ge_RegExp env) pattern" 0]
    by auto
  have js: "grepWithJs cwd root env pattern maxMatches =
               Inr \<lparr> backend = ''js'',
                     matches = take (nat maxMatches)
                       (concat (map (file_matches cwd root (ge_readFile env)
                                       (compileLineMatcher (ge_RegExp env) pattern))
                                    (grep_candidates env))),
                     totalScannedFiles = scanned \<rparr>"
    using loop by (simp add: grepWithJs_def Let_def)
  obtain ordered where ordered:
    "sort_tree (ge_localeCompare env) (DirNode entries) = DirNode ordered"
    by simp
  have listing: "listFiles (ge_localeCompare env) (ge_tree env) True 8 2500
                 = take 2500 (tree_listing True 8 [] 0 ordered)"
    using listFiles_char[of "ge_localeCompare env" "ge_tree env" ordered True 8 2500]
          ordered assms(3) by simp
  have candidates: "grep_candidates env =
                   filter (\<lambda>f. \<not> suffix ''/'' f \<and> canReadAsText f)
                     (take 2500 (tree_listing True 8 [] 0 ordered))"
    unfolding grep_candidates_def listing ..
  have member: "foldl relative_entry [] names \<in> set (grep_candidates env)"
    if "file_at entries names" "length names \<le> 9"
       "length (tree_listing True 8 [] 0 ordered) \<le> 2500"
       "\<not> suffix ''/'' (foldl relative_entry [] names)"
       "canReadAsText (foldl relative_entry [] names)" for names
  proof -
    have "file_at ordered names"
      by (rule file_at_sort_tree[OF that(1) ordered])
    then have "foldl relative_entry [] names \<in> set (tree_listing True 8 [] 0 ordered)"
      using file_at_listed[of ordered names 8 0 "[]"] that(2) by simp
    then show ?thesis
      unfolding candidates using that(3,4,5) by simp
  qed
  show ?thesis
    using fallback js candidates member ordered assms(3) by auto
qed

lemma sample_candidates:
  "grep_candidates sample_grep_env =
     [''a.md'', ''b.ts'', ''d1/d2/d3/d4/d5/d6/d7/d8/e.md'', ''d1/n.md'']"
  by code_simp

lemma sample_resolves:
  "resolveWorkspacePath (posix ''/'') ''/w'' ''a.md'' = Inr ''/w/a.md''"
  "resolveWorkspacePath (posix ''/'') ''/w'' ''b.ts'' = Inr ''/w/b.ts''"
  "resolveWorkspacePath (posix ''/'') ''/w'' ''d1/d2/d3/d4/d5/d6/d7/d8/e.md''
     = Inr ''/w/d1/d2/d3/d4/d5/d6/d7/d8/e.md''"
  "resolveWorkspacePath (posix ''/'') ''/w'' ''d1/n.md'' = Inr ''/w/d1/n.md''"
  by code_simp+

lemma sample_file_matches:
  "concat (map (file_matches ''/'' ''/w'' (ge_readFile sample_grep_env)
                  (compileLineMatcher (ge_RegExp sample_grep_env) ''TODO''))
               [''a.md'', ''b.ts'', ''d1/d2/d3/d4/d5/d6/d7/d8/e.md'', ''d1/n.md''])
   = [\<lparr> gm_path = ''a.md'', gm_line = 1, gm_text = ''TODO: write the guide'' \<rparr>,
      \<lparr> gm_path = ''b.ts'', gm_line = 1, gm_text = ''// TODO remove'' \<rparr>,
      \<lparr> gm_path = ''d1/d2/d3/d4/d5/d6/d7/d8/e.md'', gm_line = 1, gm_text = ''TODO'' \<rparr>,
      \<lparr> gm_path = ''d1/n.md'', gm_line = 1, gm_text = ''TODO'' \<rparr>]"
  by code_simp

lemma sample_skipped_files_match:
  "map (file_matches ''/'' ''/w'' (ge_readFile sample_grep_env)
                  (compileLineMatcher (ge_RegExp sample_grep_env) ''TODO''))
       [''logo.png'', ''d1/d2/d3/d4/d5/d6/d7/d8/d9/deep.md'', ''node_modules/m.md'']
   = [[\<lparr> gm_path = ''logo.png'', gm_line = 1, gm_text = ''TODO'' \<rparr>],
      [\<lparr> gm_path = ''d1/d2/d3/d4/d5/d6/d7/d8/d9/deep.md'', gm_line = 1, gm_text = ''TODO'' \<rparr>],
      [\<lparr> gm_path = ''node_modules/m.md'', gm_line = 1, gm_text = ''TODO'' \<rparr>]]"
  by code_simp

theorem grep_fallback_ignores_glob_witness:
  "map_sum id matches (grepWorkspace ''/'' ''/w'' sample_grep_env ''TODO'' (Some ''*.ts'') 120)
   = Inr [\<lparr> gm_path = ''a.md'', gm_line = 1, gm_text = ''TODO: write the guide'' \<rparr>,
          \<lparr> gm_path = ''b.ts'', gm_line = 1, gm_text = ''// TODO remove'' \<rparr>,
          \<lparr> gm_path = ''d1/d2/d3/d4/d5/d6/d7/d8/e.md'', gm_line = 1, gm_text = ''TODO'' \<rparr>,
          \<lparr> gm_path = ''d1/n.md'', gm_line = 1, gm_text = ''TODO'' \<rparr>]
   \<and> map (file_matches ''/'' ''/w'' (ge_readFile sample_grep_env)
             (compileLineMatcher (ge_RegExp sample_grep_env) ''TODO''))
        [''logo.png'', ''d1/d2/d3/d4/d5/d6/d7/d8/d9/deep.md'', ''node_modules/m.md'']
       = [[\<lparr> gm_path = ''logo.png'', gm_line = 1, gm_text = ''TODO'' \<rparr>],
          [\<lparr> gm_path = ''d1/d2/d3/d4/d5/d6/d7/d8/d9/deep.md'', gm_line = 1,
             gm_text = ''TODO'' \<rparr>],
          [\<lparr> gm_path = ''node_modules/m.md'', gm_line = 1, gm_text = ''TODO'' \<rparr>]]"
proof -
  have h1: "\<not> ge_hasRipgrep sample_grep_env
            \<or> ge_ripgrep sample_grep_env ''TODO'' (Some ''*.ts'') 120 = None"
    by (simp add: sample_grep_env_def)
  have h2: "\<forall>f \<in> set (grep_candidates sample_grep_env).
              \<exists>absolute. resolveWorkspacePath (posix ''/'') ''/w'' f = Inr absolute"
    unfolding sample_candidates using sample_resolves by simp
  have h3: "ge_tree sample_grep_env = DirNode sample_entries"
    by (simp add: sample_grep_env_def)
  from grep_fallback_ignores_glob[OF h1 h2 h3]
  obtain scanned where
    "grepWorkspace ''/'' ''/w'' sample_grep_env ''TODO'' (Some ''*.ts'') 120 =
       Inr \<lparr> backend = ''js'',
             matches = take (nat 120)
               (concat (map (file_matches ''/'' ''/w'' (ge_readFile sample_grep_env)
                               (compileLineMatcher (ge_RegExp sample_grep_env) ''TODO''))
                            (grep_candidates sample_grep_env))),
             totalScannedFiles = scanned \<rparr>"
    by blast
  then have "map_sum id matches
               (grepWorkspace ''/'' ''/w'' sample_grep_env ''TODO'' (Some ''*.ts'') 120)
             = Inr [\<lparr> gm_path = ''a.md'', gm_line = 1, gm_text = ''TODO: write the guide'' \<rparr>,
                    \<lparr> gm_path = ''b.ts'', gm_line = 1, gm_text = ''// TODO remove'' \<rparr>,
                    \<lparr> gm_path = ''d1/d2/d3/d4/d5/d6/d7/d8/e.md'', gm_line = 1,
                       gm_text = ''TODO'' \<rparr>,
                    \<lparr> gm_path = ''d1/n.md'', gm_line = 1, gm_text = ''TODO'' \<rparr>]"
    unfolding sample_candidates sample_file_matches by simp
  with sample_skipped_files_match show ?thesis
    by (rule_tac conjI)
qed

subsection \<open>Project scanner\<close>

lemma finite_languages: "finite (dom (m :: SupportedLanguage \<rightharpoonup> nat))"
proof -
  have "(UNIV :: SupportedLanguage set) = {Typescript, Javascript, Python, UnknownLanguage}"
    using SupportedLanguage.exhaust by auto
  then have "finite (UNIV :: SupportedLanguage set)"
    by (metis finite.emptyI finite.insertI)
  then show ?thesis
    using finite_subset subset_UNIV by blast
qed

lemma language_total_count:
  "language_total (count_language m language) = language_total m + 1"
proof -
  let ?v = "(case m language of None \<Rightarrow> 0 | Some n \<Rightarrow> n)"
  let ?m' = "m(language \<mapsto> ?v + 1)"
  let ?others = "dom m - {language}"
  have fin: "finite ?others" using finite_languages[of m] by simp
  have notin: "language \<notin> ?others" by simp
  have dom': "dom ?m' = insert language ?others" by auto
  have a: "language_total ?m' = (\<Sum>l \<in> insert language ?others. the (?m' l))"
    unfolding language_total_def by (simp only: dom')
  have b: "(\<Sum>l \<in> insert language ?others. the (?m' l))
             = the (?m' language) + (\<Sum>l \<in> ?others. the (?m' l))"
    by (rule sum.insert[OF fin notin])
  have c: "(\<Sum>l \<in> ?others. the (?m' l)) = (\<Sum>l \<in> ?others. the (m l))"
    by (rule sum.cong) auto
  have d: "the (?m' language) = ?v + 1"
    by simp
  have new: "language_total ?m' = (?v + 1) + (\<Sum>l \<in> ?others. the (m l))"
    by (simp only: a b c d)
  have old: "language_total m = ?v + (\<Sum>l \<in> ?others. the (m l))"
  proof (cases "m language")
    case None
    then have "?others = dom m" by auto
    with None show ?thesis by (simp add: language_total_def)
  next
    case (Some n)
    then have "dom m = insert language ?others" by auto
    then have "language_total m = (\<Sum>l \<in> insert language ?others. the (m l))"
      unfolding language_total_def by simp
    also have "\<dots> = the (m language) + (\<Sum>l \<in> ?others. the (m l))"
      by (rule sum.insert[OF fin notin])
    finally show ?thesis using Some by simp
  qed
  show ?thesis unfolding count_language_def by (simp only: new old)
qed

lemma acc_invariant_file:
  assumes "acc_invariant acc"
  shows "acc_invariant (acc\<lparr> ia_languages := count_language (ia_languages acc) language,
                          ia_files := ia_files acc @ [entry] \<rparr>)"
  using assms language_total_count[of "ia_languages acc" language]
  by (auto simp: acc_invariant_def listed_paths_def)

lemma acc_invariant_parsed:
  assumes "acc_invariant acc" "filePath \<in> listed_paths (ia_files acc)"
  shows "acc_invariant (push_parsed (with_path filePath parsed) acc)"
  using assms
  by (auto simp: acc_invariant_def push_parsed_def with_path_def)

lemma buildIndex_loop_invariant:
  "acc_invariant acc \<Longrightarrow> buildIndex_loop cwd root env filePaths acc = Inr acc'
   \<Longrightarrow> acc_invariant acc'"
proof (induction filePaths arbitrary: acc)
  case Nil
  then show ?case by simp
next
  case (Cons filePath rest)
  from Cons.prems(2) obtain absolutePath where
    abs: "resolveWorkspacePath (posix cwd) root filePath = Inr absolutePath"
    by (cases "resolveWorkspacePath (posix cwd) root filePath") auto
  show ?case
  proof (cases "se_stat env absolutePath")
    case None
    with Cons abs show ?thesis by simp
  next
    case (Some st)
    obtain isFile sizeBytes where st: "st = (isFile, sizeBytes)" by (cases st)
    show ?thesis
    proof (cases isFile)
      case False
      with Cons abs Some st show ?thesis by simp
    next
      case True
      let ?language = "detectLanguage filePath"
      let ?content = "(case se_readFile env absolutePath of None \<Rightarrow> [] | Some text \<Rightarrow> text)"
      let ?summary = "\<lparr> sf_path = filePath, sf_language = ?language,
                         sf_sizeBytes = sizeBytes, sf_lineCount = count_lines ?content \<rparr>"
      let ?acc1 = "acc\<lparr> ia_languages := count_language (ia_languages acc) ?language,
                          ia_files := ia_files acc @ [?summary] \<rparr>"
      have inv1: "acc_invariant ?acc1"
        by (rule acc_invariant_file[OF Cons.prems(1)])
      have listed: "filePath \<in> listed_paths (ia_files ?acc1)"
        by (simp add: listed_paths_def)
      have step: "buildIndex_loop cwd root env (filePath # rest) acc =
          (if \<not> isLanguageIndexed ?language then buildIndex_loop cwd root env rest ?acc1
           else if sizeBytes > 1000000 then buildIndex_loop cwd root env rest ?acc1
           else if ?language = Typescript \<or> ?language = Javascript then
             (case parseTsOrJsFile env filePath ?content ?language of
                None \<Rightarrow> Inl (IOError ''parseTsOrJsFile'')
              | Some parsed \<Rightarrow> buildIndex_loop cwd root env rest (push_parsed parsed ?acc1))
           else if ?language = Python then
             (case parsePythonFile env filePath ?content of
                None \<Rightarrow> Inl (IOError ''parsePythonFile'')
              | Some parsed \<Rightarrow> buildIndex_loop cwd root env rest (push_parsed parsed ?acc1))
           else buildIndex_loop cwd root env rest ?acc1)"
        using abs Some st True by (simp add: Let_def)
      consider (plain) "buildIndex_loop cwd root env rest ?acc1 = Inr acc'"
        | (parsed) parsed where
            "buildIndex_loop cwd root env rest (push_parsed (with_path filePath parsed) ?acc1) = Inr acc'"
        using Cons.prems(2) unfolding step
        by (auto simp: parseTsOrJsFile_def parsePythonFile_def split: if_splits option.splits)
      then show ?thesis
      proof cases
        case plain
        then show ?thesis using Cons.IH[OF inv1] by simp
      next
        case (parsed p)
        then show ?thesis
          using Cons.IH[OF acc_invariant_parsed[OF inv1 listed]] by simp
      qed
    qed
  qed
qed

text \<open>
  C7 (project-index invariant). Every index that \<open>buildIndex\<close> produces, whatever the
  directory tree, the file system answers, the adapters' findings and the limit on the
  number of files: the path of every symbol, of every import and of every use is the path
  of an entry of \<open>files\<close>; the counts of the \<open>languages\<close> map sum to \<open>totalFilesScanned\<close>;
  and \<open>totalFilesScanned\<close> is the number of entries of \<open>files\<close>.
\<close>

theorem project_index_invariant:
  assumes "buildIndex cwd root env maxFilesDefault maxFilesOverride = Inr index"
  shows "(\<forall>s \<in> set (pi_symbols index). sym_path s \<in> listed_paths (pi_files index))
         \<and> (\<forall>i \<in> set (pi_imports index). imp_path i \<in> listed_paths (pi_files index))
         \<and> (\<forall>u \<in> set (pi_uses index). use_path u \<in> listed_paths (pi_files index))
         \<and> language_total (languages index) = totalFilesScanned index
         \<and> totalFilesScanned index = length (pi_files index)"
proof -
  let ?start = "\<lparr> ia_files = [], ia_symbols = [], ia_imports = [], ia_uses = [],
                  ia_languages = Map.empty \<rparr>"
  have start: "acc_invariant ?start"
    by (simp add: acc_invariant_def language_total_def)
  from assms obtain filePaths acc dependencies where
    loop: "buildIndex_loop cwd root env filePaths ?start = Inr acc" and
    index: "index = \<lparr> pi_workspaceRoot = root,
                   totalFilesScanned = length (ia_files acc),
                   languages = ia_languages acc,
                   pi_files = ia_files acc,
                   pi_symbols = ia_symbols acc,
                   pi_imports = ia_imports acc,
                   pi_uses = ia_uses acc,
                   pi_dependencies = dependencies \<rparr>"
    by (auto simp: buildIndex_def Let_def split: sum.splits option.splits)
  from buildIndex_loop_invariant[OF start loop] show ?thesis
    by (simp add: acc_invariant_def index)
qed


lemma sample_scan_result:
  "map_sum id (\<lambda>index. (totalFilesScanned index, map sf_path (pi_files index),
                          map sym_path (pi_symbols index), map imp_path (pi_imports index),
                          map use_path (pi_uses index)))
     (buildIndex ''/'' ''/w'' sample_scan_env 6000 None)
   = Inr (3, [''a.md'', ''b.ts'', ''src/c.py''], [''b.ts''], [''src/c.py''], [''src/c.py''])"
  by code_simp

theorem project_index_invariant_witness:
  "\<exists>index. buildIndex ''/'' ''/w'' sample_scan_env 6000 None = Inr index
      \<and> map sf_path (pi_files index) = [''a.md'', ''b.ts'', ''src/c.py'']
      \<and> map sym_path (pi_symbols index) = [''b.ts'']
      \<and> language_total (languages index) = 3
      \<and> totalFilesScanned index = 3"
proof -
  obtain index where
    run: "buildIndex ''/'' ''/w'' sample_scan_env 6000 None = Inr index"
    using sample_scan_result
    by (cases "buildIndex ''/'' ''/w'' sample_scan_env 6000 None") auto
  from sample_scan_result run have shown:
    "totalFilesScanned index = 3"
    "map sf_path (pi_files index) = [''a.md'', ''b.ts'', ''src/c.py'']"
    "map sym_path (pi_symbols index) = [''b.ts'']"
    by simp_all
  from project_index_invariant[OF run] shown(1)
  have total: "language_total (languages index) = 3" by simp
  show ?thesis
    by (rule exI[of _ index]) (simp only: run shown total simp_thms)
qed

subsection \<open>Orchestrator loop\<close>

text \<open>The verify commands of a pass extend the log and set the two flags; nothing else changes.\<close>

lemma run_verify_char:
  "run_verify RegExp policy settled cmds st failed =
     (st\<lparr> verifyResults := verifyResults st @ verify_outcomes RegExp policy settled cmds,
          hadVerifyFailures :=
            hadVerifyFailures st \<or> some_failed (verify_outcomes RegExp policy settled cmds) \<rparr>,
      failed \<or> some_failed (verify_outcomes RegExp policy settled cmds))"
proof (induction cmds arbitrary: st failed)
  case Nil
  show ?case by (simp add: verify_outcomes_def some_failed_def)
next
  case (Cons cmd cmds)
  show ?case
    by (cases "ok (runVerifyCommand RegExp policy (settled cmd) cmd)")
       (simp_all add: Cons.IH Let_def verify_outcomes_def some_failed_def)
qed

lemma some_failed_append: "some_failed (xs @ ys) \<longleftrightarrow> some_failed xs \<or> some_failed ys"
  by (simp add: some_failed_def)

text \<open>
  A pass whose model call, parse and memory update succeed, in terms of what its actions
  and verify commands give.
\<close>

lemma loop_body_char:
  assumes "le_complete le = Some rawResponse"
      and "parseAgentModelResponse (te_JSON_parse te) rawResponse = Inr modelResponse"
      and "le_memoryUpdate le = None"
      and "run_actions (te_RegExp te) (te_cwd te) config (te_policy te) (le_actions le) 0
             (actions modelResponse) (ts_world st) False = (w1, loopHadWrites)"
      and "cmds = loop_verify_commands te config le modelResponse w1 loopHadWrites"
      and "outcomes = verify_outcomes (te_RegExp te) (te_policy te) (le_verify le) cmds"
      and "st2 = st\<lparr> ts_world := w1,
                      verifyResults := verifyResults st @ outcomes,
                      hadVerifyFailures := hadVerifyFailures st \<or> some_failed outcomes,
                      consecutiveVerifyFailures :=
                        count_verify_round (consecutiveVerifyFailures st) cmds
                          (some_failed outcomes) \<rparr>"
  shows "loop_body te config le st =
           (if consecutiveVerifyFailures st2 \<ge> autoRepairMaxRounds config
               \<and> hasChanges (w_tracker w1)
            then (if \<not> le_keepTrying le
                  then Inr (st2\<lparr> repairPrompts := repairPrompts st + 1, stoppedEarly := True \<rparr>,
                            Break)
                  else Inr (loop_end le modelResponse (some_failed outcomes)
                              (st2\<lparr> repairPrompts := repairPrompts st + 1,
                                    consecutiveVerifyFailures := 0 \<rparr>)))
            else Inr (loop_end le modelResponse (some_failed outcomes) st2))"
  unfolding loop_body_def
  by (simp add: assms run_verify_char Let_def)

lemma loop_end_fields:
  assumes "loop_end le modelResponse failed st = (st', flow)"
  shows "ts_world st' = ts_world st" "verifyResults st' = verifyResults st"
        "hadVerifyFailures st' = hadVerifyFailures st"
        "consecutiveVerifyFailures st' = consecutiveVerifyFailures st"
        "repairPrompts st' = repairPrompts st" "rollbackAsked st' = rollbackAsked st"
  using assms by (auto simp: loop_end_def split: if_splits option.splits)

text \<open>
  The effect of a pass that got a model response on the log, the flags and the counter:
  \<open>new\<close> are the results of its verify commands.
\<close>

lemma loop_body_effect:
  assumes "loop_body te config le st = Inr (st', flow)" and "le_complete le \<noteq> None"
  shows "\<exists>new. verifyResults st' = verifyResults st @ new
           \<and> hadVerifyFailures st' = (hadVerifyFailures st \<or> some_failed new)
           \<and> rollbackAsked st' = rollbackAsked st
           \<and> (let counted = (if new = [] then consecutiveVerifyFailures st
                              else if some_failed new then consecutiveVerifyFailures st + 1
                              else 0);
                    prompted = (autoRepairMaxRounds config \<le> counted
                                \<and> hasChanges (w_tracker (ts_world st')))
                in repairPrompts st' = repairPrompts st + (if prompted then 1 else 0)
                   \<and> consecutiveVerifyFailures st'
                       = (if prompted \<and> le_keepTrying le then 0 else counted)
                   \<and> (prompted \<and> \<not> le_keepTrying le \<longrightarrow> flow = Break \<and> stoppedEarly st'))"
proof -
  from assms(2) obtain rawResponse where raw: "le_complete le = Some rawResponse" by auto
  from assms(1) raw obtain modelResponse where
    parsed: "parseAgentModelResponse (te_JSON_parse te) rawResponse = Inr modelResponse"
    by (cases "parseAgentModelResponse (te_JSON_parse te) rawResponse")
       (auto simp: loop_body_def)
  from assms(1) raw parsed have memory: "le_memoryUpdate le = None"
    by (cases "le_memoryUpdate le") (auto simp: loop_body_def)
  obtain w1 loopHadWrites where
    acts: "run_actions (te_RegExp te) (te_cwd te) config (te_policy te) (le_actions le) 0
             (actions modelResponse) (ts_world st) False = (w1, loopHadWrites)"
    by (cases "run_actions (te_RegExp te) (te_cwd te) config (te_policy te) (le_actions le) 0
             (actions modelResponse) (ts_world st) False")
  define cmds where "cmds = loop_verify_commands te config le modelResponse w1 loopHadWrites"
  define new where "new = verify_outcomes (te_RegExp te) (te_policy te) (le_verify le) cmds"
  define counted where
    "counted = count_verify_round (consecutiveVerifyFailures st) cmds (some_failed new)"
  define st2 where "st2 = st\<lparr> ts_world := w1,
                      verifyResults := verifyResults st @ new,
                      hadVerifyFailures := hadVerifyFailures st \<or> some_failed new,
                      consecutiveVerifyFailures := counted \<rparr>"
  have counted: "counted = (if new = [] then consecutiveVerifyFailures st
                            else if some_failed new then consecutiveVerifyFailures st + 1
                            else 0)"
    by (simp add: counted_def count_verify_round_def new_def verify_outcomes_def)
  have body: "loop_body te config le st =
           (if counted \<ge> autoRepairMaxRounds config \<and> hasChanges (w_tracker w1)
            then (if \<not> le_keepTrying le
                  then Inr (st2\<lparr> repairPrompts := repairPrompts st + 1, stoppedEarly := True \<rparr>,
                            Break)
                  else Inr (loop_end le modelResponse (some_failed new)
                              (st2\<lparr> repairPrompts := repairPrompts st + 1,
                                    consecutiveVerifyFailures := 0 \<rparr>)))
            else Inr (loop_end le modelResponse (some_failed new) st2))"
    using loop_body_char[OF raw parsed memory acts cmds_def new_def, of st2]
    by (simp add: st2_def counted_def)
  let ?prompted = "autoRepairMaxRounds config \<le> counted \<and> hasChanges (w_tracker (ts_world st'))"
  have effect: "verifyResults st' = verifyResults st @ new
           \<and> hadVerifyFailures st' = (hadVerifyFailures st \<or> some_failed new)
           \<and> rollbackAsked st' = rollbackAsked st
           \<and> repairPrompts st' = repairPrompts st + (if ?prompted then 1 else 0)
           \<and> consecutiveVerifyFailures st' = (if ?prompted \<and> le_keepTrying le then 0 else counted)
           \<and> (?prompted \<and> \<not> le_keepTrying le \<longrightarrow> flow = Break \<and> stoppedEarly st')"
  proof (cases "counted \<ge> autoRepairMaxRounds config \<and> hasChanges (w_tracker w1)")
    case False
    with body assms(1) have "loop_end le modelResponse (some_failed new) st2 = (st', flow)"
      by simp
    from loop_end_fields[OF this] have
      "ts_world st' = w1" "verifyResults st' = verifyResults st @ new"
      "hadVerifyFailures st' = (hadVerifyFailures st \<or> some_failed new)"
      "consecutiveVerifyFailures st' = counted" "repairPrompts st' = repairPrompts st"
      "rollbackAsked st' = rollbackAsked st"
      by (simp_all add: st2_def)
    with False show ?thesis by auto
  next
    case True
    show ?thesis
    proof (cases "le_keepTrying le")
      case False
      with body assms(1) True
      have "st' = st2\<lparr> repairPrompts := repairPrompts st + 1, stoppedEarly := True \<rparr>"
           "flow = Break"
        by simp_all
      then have
        "ts_world st' = w1" "verifyResults st' = verifyResults st @ new"
        "hadVerifyFailures st' = (hadVerifyFailures st \<or> some_failed new)"
        "consecutiveVerifyFailures st' = counted" "repairPrompts st' = repairPrompts st + 1"
        "rollbackAsked st' = rollbackAsked st" "stoppedEarly st'" "flow = Break"
        by (simp_all add: st2_def)
      with True False show ?thesis by auto
    next
      case keep: True
      with body assms(1) True
      have "loop_end le modelResponse (some_failed new)
              (st2\<lparr> repairPrompts := repairPrompts st + 1,
                    consecutiveVerifyFailures := 0 \<rparr>) = (st', flow)"
        by simp
      from loop_end_fields[OF this] have
        "ts_world st' = w1" "verifyResults st' = verifyResults st @ new"
        "hadVerifyFailures st' = (hadVerifyFailures st \<or> some_failed new)"
        "consecutiveVerifyFailures st' = 0" "repairPrompts st' = repairPrompts st + 1"
        "rollbackAsked st' = rollbackAsked st"
        by (simp_all add: st2_def)
      with True keep show ?thesis by auto
    qed
  qed
  show ?thesis
    apply (rule exI[of _ new])
    apply (unfold Let_def)
    apply (rule effect[unfolded counted])
    done
qed

lemma loop_body_abort:
  "le_complete le = None \<Longrightarrow> loop_body te config le st = Inr (st\<lparr> abortedByError := True \<rparr>, Break)"
  by (simp add: loop_body_def)

text \<open>
  Through the loop the flag \<open>hadVerifyFailures\<close> says that a verify command of the log
  failed, and the rollback question has not been put.
\<close>

lemma loop_body_invariant:
  assumes "loop_body te config le st = Inr (st', flow)" and "task_invariant st"
  shows "task_invariant st'"
proof (cases "le_complete le")
  case None
  with assms show ?thesis
    by (auto simp: loop_body_abort task_invariant_def)
next
  case (Some rawResponse)
  then have "le_complete le \<noteq> None" by simp
  from loop_body_effect[OF assms(1) this] obtain new where
    "verifyResults st' = verifyResults st @ new"
    "hadVerifyFailures st' = (hadVerifyFailures st \<or> some_failed new)"
    "rollbackAsked st' = rollbackAsked st"
    by blast
  with assms(2) show ?thesis
    by (simp add: task_invariant_def some_failed_append)
qed

lemma run_loop_invariant:
  "run_loop te config loop remaining st = Inr st' \<Longrightarrow> task_invariant st \<Longrightarrow> task_invariant st'"
proof (induction remaining arbitrary: loop st)
  case 0
  then show ?case by simp
next
  case (Suc remaining)
  from Suc.prems(1) obtain st1 flow where
    body: "loop_body te config (te_loops te loop) st = Inr (st1, flow)"
    by (cases "loop_body te config (te_loops te loop) st") auto
  have inv1: "task_invariant st1"
    by (rule loop_body_invariant[OF body Suc.prems(2)])
  show ?case
  proof (cases flow)
    case Next
    with Suc.prems(1) body have "run_loop te config (Suc loop) remaining st1 = Inr st'"
      by simp
    from Suc.IH[OF this inv1] show ?thesis .
  next
    case Break
    with Suc.prems(1) body have "st' = st1" by simp
    with inv1 show ?thesis by simp
  qed
qed

lemma after_loop_asked:
  assumes "after_loop te config st = Inr fin" and "task_invariant st"
  shows "rollbackAsked fin \<longleftrightarrow>
           \<not> completed fin \<and> hasChanges (w_tracker (ts_world fin)) \<and> some_failed (verifyResults fin)"
    and "abortedByError fin = abortedByError st" and "completed fin = completed st"
  using assms
  by (auto simp: after_loop_def Let_def task_invariant_def
           split: if_splits prod.splits sum.splits)

lemma runTask_invariant:
  assumes "runTask te config fs = Inr fin"
  shows "rollbackAsked fin \<longleftrightarrow>
           \<not> completed fin \<and> hasChanges (w_tracker (ts_world fin)) \<and> some_failed (verifyResults fin)"
proof (cases "apiKey config = []")
  case True
  with assms have "fin = initial_task_state fs" by (simp add: runTask_def)
  then show ?thesis
    by (simp add: initial_task_state_def new_tracker_def hasChanges_def)
next
  case False
  with assms obtain st where
    loop: "run_loop te config 1 (maxIterations config) (initial_task_state fs) = Inr st" and
    fin: "after_loop te config st = Inr fin"
    by (auto simp: runTask_def split: option.splits sum.splits)
  have "task_invariant (initial_task_state fs)"
    by (simp add: task_invariant_def initial_task_state_def some_failed_def)
  from run_loop_invariant[OF loop this] have "task_invariant st" .
  from after_loop_asked(1)[OF fin this] show ?thesis .
qed

text \<open>
  C5, as stated, fails: the rollback question is also put after a failed model call. In
  the run whose first pass writes the file \<open>n\<close> (approved) and runs a verify command that
  fails, and whose second model call fails, the task ends aborted and not completed, and
  the rollback question is put.
\<close>

theorem rollback_asked_after_abort:
  "map_sum id (\<lambda>fin. (abortedByError fin, completed fin, rollbackAsked fin))
     (runTask (sample_task True abort_after_failure) task_config Map.empty)
   = Inr (True, False, True)"
  by code_simp

text \<open>
  C5, amended. Whenever \<open>runTask\<close> returns, the rollback question has been put exactly when
  the task was not completed, the change tracker has changes and at least one verify
  command of the task failed; whether the task was aborted by a failed model call plays no
  part.
\<close>

theorem rollback_question_condition:
  assumes "runTask te config fs = Inr fin"
  shows "rollbackAsked fin \<longleftrightarrow>
           \<not> completed fin \<and> hasChanges (w_tracker (ts_world fin))
           \<and> (\<exists>result \<in> set (verifyResults fin). \<not> snd result)"
  using runTask_invariant[OF assms] by (simp add: some_failed_def list_ex_iff)

theorem rollback_question_condition_witness:
  "\<exists>fin. runTask (sample_task True abort_after_failure) task_config Map.empty = Inr fin
      \<and> rollbackAsked fin \<and> \<not> completed fin \<and> hasChanges (w_tracker (ts_world fin))
      \<and> (\<exists>result \<in> set (verifyResults fin). \<not> snd result)"
proof -
  have run: "map_sum id (\<lambda>fin. (abortedByError fin, completed fin, rollbackAsked fin))
     (runTask (sample_task True abort_after_failure) task_config Map.empty)
   = Inr (True, False, True)"
    by code_simp
  then obtain fin where
    fin: "runTask (sample_task True abort_after_failure) task_config Map.empty = Inr fin"
    by (cases "runTask (sample_task True abort_after_failure) task_config Map.empty") auto
  with run have asked: "rollbackAsked fin" by simp
  from rollback_question_condition[OF fin] asked
  have "\<not> completed fin \<and> hasChanges (w_tracker (ts_world fin))
        \<and> (\<exists>result \<in> set (verifyResults fin). \<not> snd result)"
    by simp
  with fin asked show ?thesis by blast
qed

text \<open>
  C10, as stated, fails: a pass without verify commands can reset the counter. With the
  repair limit 3, after three passes whose one verify command fails and which write
  nothing, the counter is 3 and the question of the repair limit has not been put, there
  being no changes. The fourth pass writes a file and runs no verify command: the
  question is put, the user continues, and the counter is 0.
\<close>

theorem verify_free_pass_resets_counter:
  "map_sum id (\<lambda>st. (consecutiveVerifyFailures st, length (verifyResults st), repairPrompts st))
     (run_loop (sample_task True write_after_failures) task_config 1 3 (initial_task_state Map.empty))
   = Inr (3, 3, 0)
   \<and> map_sum id (\<lambda>st. (consecutiveVerifyFailures st, length (verifyResults st), repairPrompts st))
       (run_loop (sample_task True write_after_failures) task_config 1 4 (initial_task_state Map.empty))
     = Inr (0, 3, 1)"
  by code_simp

text \<open>
  C10, amended. In a pass that got a model response, let \<open>new\<close> be the results of the
  verify commands it ran. The counter after the verify commands is the one before when
  \<open>new\<close> is empty, one more when a command failed, and 0 when all passed. The question of
  the repair limit is put exactly when that count has reached the limit and the tracker
  has changes; the pass ends with the count, except that it ends with 0 when the question
  was put and the user continues. So a pass without verify commands leaves the counter
  unchanged unless the question is put in it, and failing passes count up across passes
  without verify commands. A pass whose model call failed changes neither the counter nor
  the log.
\<close>

theorem verify_free_pass_counter:
  assumes "loop_body te config le st = Inr (st', flow)"
  shows "\<exists>new. verifyResults st' = verifyResults st @ new
           \<and> (le_complete le = None \<longrightarrow>
                  new = [] \<and> consecutiveVerifyFailures st' = consecutiveVerifyFailures st
                  \<and> repairPrompts st' = repairPrompts st)
           \<and> (le_complete le \<noteq> None \<longrightarrow>
                (let counted = (if new = [] then consecutiveVerifyFailures st
                                else if \<exists>result \<in> set new. \<not> snd result
                                     then consecutiveVerifyFailures st + 1
                                else 0);
                     asked = (autoRepairMaxRounds config \<le> counted
                              \<and> hasChanges (w_tracker (ts_world st')))
                 in repairPrompts st' = repairPrompts st + (if asked then 1 else 0)
                    \<and> consecutiveVerifyFailures st'
                        = (if asked \<and> le_keepTrying le then 0 else counted)))"
proof (cases "le_complete le")
  case None
  with assms have "st' = st\<lparr> abortedByError := True \<rparr>"
    by (simp add: loop_body_abort)
  with None show ?thesis by simp
next
  case (Some rawResponse)
  then have response: "le_complete le \<noteq> None" by simp
  from loop_body_effect[OF assms response] obtain new where
    log: "verifyResults st' = verifyResults st @ new" and
    effect: "(let counted = (if new = [] then consecutiveVerifyFailures st
                              else if some_failed new then consecutiveVerifyFailures st + 1
                              else 0);
                  prompted = (autoRepairMaxRounds config \<le> counted
                                \<and> hasChanges (w_tracker (ts_world st')))
              in repairPrompts st' = repairPrompts st + (if prompted then 1 else 0)
                 \<and> consecutiveVerifyFailures st'
                     = (if prompted \<and> le_keepTrying le then 0 else counted)
                 \<and> (prompted \<and> \<not> le_keepTrying le \<longrightarrow> flow = Break \<and> stoppedEarly st'))"
    by blast
  have failed: "some_failed new \<longleftrightarrow> (\<exists>result \<in> set new. \<not> snd result)"
    by (simp add: some_failed_def list_ex_iff)
  show ?thesis
    apply (rule exI[of _ new])
    using log effect response unfolding Let_def failed
    apply simp
    done
qed

theorem verify_free_pass_counter_witness:
  "\<exists>st'. loop_body (sample_task True write_after_failures) task_config
             (sample_loop True (Some verify_text)) (initial_task_state Map.empty) = Inr (st', Next)
      \<and> verifyResults st' = [(''npm test'', False)]
      \<and> consecutiveVerifyFailures st' = 1 \<and> repairPrompts st' = 0"
proof -
  let ?te = "sample_task True write_after_failures"
  let ?le = "sample_loop True (Some verify_text)"
  let ?st = "initial_task_state Map.empty"
  have run: "map_sum id (\<lambda>(st', flow). (verifyResults st', flow, hasChanges (w_tracker (ts_world st'))))
               (loop_body ?te task_config ?le ?st)
             = Inr ([(''npm test'', False)], Next, False)"
    by code_simp
  then obtain st' where
    body: "loop_body ?te task_config ?le ?st = Inr (st', Next)" and
    log: "verifyResults st' = [(''npm test'', False)]" and
    unchanged: "\<not> hasChanges (w_tracker (ts_world st'))"
    by (cases "loop_body ?te task_config ?le ?st") auto
  have response: "le_complete ?le \<noteq> None" and start: "verifyResults ?st = []"
    "consecutiveVerifyFailures ?st = 0" "repairPrompts ?st = 0"
    by (simp_all add: sample_loop_def initial_task_state_def)
  have limit: "autoRepairMaxRounds task_config = 3"
    by (simp add: task_config_def sample_config_def)
  from verify_free_pass_counter[OF body] obtain new where
    new: "verifyResults st' = verifyResults ?st @ new" and
    counter: "le_complete ?le \<noteq> None \<longrightarrow>
                (let counted = (if new = [] then consecutiveVerifyFailures ?st
                                else if \<exists>result \<in> set new. \<not> snd result
                                     then consecutiveVerifyFailures ?st + 1
                                else 0);
                     asked = (autoRepairMaxRounds task_config \<le> counted
                              \<and> hasChanges (w_tracker (ts_world st')))
                 in repairPrompts st' = repairPrompts ?st + (if asked then 1 else 0)
                    \<and> consecutiveVerifyFailures st'
                        = (if asked \<and> le_keepTrying ?le then 0 else counted))"
    by blast
  from new log start(1) have "new = [(''npm test'', False)]" by simp
  with counter response unchanged start limit
  have "consecutiveVerifyFailures st' = 1 \<and> repairPrompts st' = 0"
    by (simp add: Let_def)
  with body log show ?thesis by blast
qed

text \<open>
  Failing passes count up across passes without verify commands: with failing passes 1, 3
  and 5 and nothing done in passes 2 and 4, the repair limit 3 is reached in pass 5, where
  the question is put and the user stops.
\<close>

lemma interleaved_failures_reach_limit:
  "map_sum id (\<lambda>st. (consecutiveVerifyFailures st, repairPrompts st, stoppedEarly st))
     (run_loop (sample_task False failures_between_idle_passes) task_config 1 4
        (initial_task_state Map.empty))
   = Inr (2, 0, False)
   \<and> map_sum id (\<lambda>st. (consecutiveVerifyFailures st, repairPrompts st, stoppedEarly st))
       (run_loop (sample_task False failures_between_idle_passes) task_config 1 5
          (initial_task_state Map.empty))
     = Inr (3, 1, True)"
  by code_simp

end
